theory Spec2Isabelle
  imports Main "HOL-Library.Word"
begin

section \<open>The event dispatcher of event.c\<close>

text \<open>
  A shallow embedding of \<^verbatim>\<open>src/event/event.c\<close>: the fixed table of event descriptors,
  registration, the trigger path, the timer adapter and the main-loop sweep.

  Conventions of the embedding.
  \<^item> The statics \<^verbatim>\<open>m_numEvents\<close>, \<^verbatim>\<open>m_events\<close> and \<^verbatim>\<open>m_initialized\<close> are the
    fields of a record that every operation takes and returns.
  \<^item> \<^verbatim>\<open>m_events\<close> is a function from indices to descriptors; only the indices below
    \<^verbatim>\<open>MAX_EVENTS\<close> are cells of the C array, and every access by a computed or
    caller-supplied index is guarded: an index beyond the array is the value
    \<open>OUT_OF_BOUNDS\<close> (undefined behaviour in C, which is not a halt).
  \<^item> A failed \<^verbatim>\<open>ASSERT\<close> is the value \<open>ASSERT_FAILED\<close>: the program halts there.
  \<^item> A callback is a function pointer (\<open>None\<close> is \<^verbatim>\<open>NULL\<close>); what the pointed-to
    user function does to the state is the parameter \<open>run\<close>. Callbacks are user code
    and are assumed to return. Every invocation made by the dispatcher is appended,
    as the index of the descriptor whose callback is called, to a trace that is
    threaded beside the state, out of the callbacks' reach. What a callback does by
    calling back into the dispatcher is part of \<open>run\<close> and leaves no entry.
  \<^item> The fields \<^verbatim>\<open>name\<close>, \<^verbatim>\<open>context\<close>, \<^verbatim>\<open>single\<close>, \<^verbatim>\<open>id\<close> and \<^verbatim>\<open>type\<close> of a descriptor
    are written \<open>ev_name\<close>, \<open>ev_context\<close>, \<open>ev_single\<close>, \<open>ev_id\<close> and \<open>ev_type\<close>, and a
    parameter \<^verbatim>\<open>id\<close> is written \<open>eid\<close>: several of these names are taken in HOL.
  \<^item> The platform timer, GPIO, clock and random services are not part of this code
    base: they are the fields of a parameter \<open>P\<close>. Console output is not modelled.
\<close>

type_synonym u8 = "8 word"
type_synonym u16 = "16 word"
type_synonym u32 = "32 word"

text \<open>Addresses of caller-owned objects (a GPIO line object, an out-parameter).\<close>
type_synonym ptr = nat

text \<open>A function pointer of type \<^verbatim>\<open>AppEvent_Callback\<close>.\<close>
type_synonym AppEvent_Callback = nat

datatype APP_EVENT_CONTEXTS = APP_EVENT_CONTEXT_MAIN | APP_EVENT_CONTEXT_IMMEDIATE

datatype EVENT_TYPES = EVENT_TYPE_GENERAL | EVENT_TYPE_TIMER | EVENT_TYPE_INTERRUPT

text \<open>
  The enumeration \<^verbatim>\<open>IrqModes\<close> comes from the board's gpio.h, which is not under src;
  event.c only names \<^verbatim>\<open>NO_IRQ\<close>, taken here to be its first value (the value of a
  zero-initialised cell).
\<close>
datatype IrqModes = NO_IRQ | IRQ_RISING_EDGE | IRQ_FALLING_EDGE | IRQ_RISING_FALLING_EDGE

type_synonym IrqPriorities = nat

datatype fault = ASSERT_FAILED | OUT_OF_BOUNDS

record EventDiagnostics_t =
  debugEnable :: bool
  startTime :: u32
  triggerCount :: u16
  processCount :: u16

record 't AppEvent_t =
  ev_name :: "string option"
  ev_context :: APP_EVENT_CONTEXTS
  callback :: "AppEvent_Callback option"
  triggered :: bool
  paused :: bool
  ev_single :: bool
  ev_id :: u8
  ev_type :: EVENT_TYPES
  timer :: 't
  timeout :: u32
  timeoutRandomizer :: u32
  irqGpio :: "ptr option"
  irqMode :: IrqModes
  irqPriority :: IrqPriorities
  diagnostics :: EventDiagnostics_t

record ('t, 'p) world =
  m_numEvents :: u8
  m_events :: "nat \<Rightarrow> 't AppEvent_t"
  m_initialized :: bool
  plat :: 'p

text \<open>
  The consumed platform services (timer.h, gpio.h, stdlib's rand). \<open>'t\<close> is the timer
  object \<^verbatim>\<open>TimerEvent_t\<close> embedded in a descriptor, \<open>'p\<close> the rest of the platform's
  state. \<open>randomOffset p r\<close> stands for the expression
  \<^verbatim>\<open>(uint16_t)((rand() / (double)RAND_MAX) * r)\<close>, which draws from the generator.
\<close>
record ('t, 'p) platform =
  TimerInit :: "'t \<Rightarrow> 't"
  TimerSetValue :: "'t \<Rightarrow> u32 \<Rightarrow> 't"
  TimerStartWithParam :: "'t \<Rightarrow> 't"
  TimerStop :: "'t \<Rightarrow> 't"
  TimerRunning :: "'t \<Rightarrow> bool"
  TimerTimeRemaining :: "'p \<Rightarrow> 't \<Rightarrow> u32"
  TimerGetCurrentTime :: "'p \<Rightarrow> u32"
  randomOffset :: "'p \<Rightarrow> u32 \<Rightarrow> u16 \<times> 'p"
  GpioSetInterrupt :: "'p \<Rightarrow> ptr option \<Rightarrow> IrqModes \<Rightarrow> IrqPriorities \<Rightarrow> 'p"
  GpioMcuSetContext :: "'p \<Rightarrow> ptr option \<Rightarrow> 'p"
  GpioRemoveInterrupt :: "'p \<Rightarrow> ptr option \<Rightarrow> 'p"

type_synonym trace = "nat list"

definition MAX_EVENTS :: nat where
  "MAX_EVENTS = 32"

subsection \<open>Arming: StartEvent\<close>

definition StartEvent :: "('t, 'p) platform \<Rightarrow> nat \<Rightarrow> ('t, 'p) world \<Rightarrow> ('t, 'p) world" where
  "StartEvent P i w =
     (let event = m_events w i in
      if irqMode event = NO_IRQ then
        (if timeoutRandomizer event > 0 then
           (let (off, p1) = randomOffset P (plat w) (timeoutRandomizer event);
                t1 = TimerSetValue P (timer event) (timeout event + ucast off)
            in w\<lparr>m_events := (m_events w)(i := event\<lparr>timer := TimerStartWithParam P t1\<rparr>),
                 plat := p1\<rparr>)
         else
           w\<lparr>m_events := (m_events w)(i := event\<lparr>timer := TimerStartWithParam P (timer event)\<rparr>)\<rparr>)
      else
        w\<lparr>plat := GpioMcuSetContext P
                    (GpioSetInterrupt P (plat w) (irqGpio event) (irqMode event) (irqPriority event))
                    (irqGpio event)\<rparr>)"

subsection \<open>The trigger path\<close>

definition DoTrigger ::
  "(AppEvent_Callback \<Rightarrow> ('t, 'p) world \<Rightarrow> ('t, 'p) world) \<Rightarrow> nat \<Rightarrow>
   ('t, 'p) world \<times> trace \<Rightarrow> ('t, 'p) world \<times> trace" where
  "DoTrigger run i s =
     (let w = fst s; tr = snd s; event = m_events w i; d = diagnostics event in
      case ev_context event of
        APP_EVENT_CONTEXT_MAIN \<Rightarrow>
          (w\<lparr>m_events := (m_events w)(i := event\<lparr>triggered := True,
                diagnostics := d\<lparr>triggerCount := triggerCount d + 1\<rparr>\<rparr>)\<rparr>, tr)
      | APP_EVENT_CONTEXT_IMMEDIATE \<Rightarrow>
          (let w1 = w\<lparr>m_events := (m_events w)(i := event\<lparr>
                       diagnostics := d\<lparr>triggerCount := triggerCount d + 1,
                                        processCount := processCount d + 1\<rparr>\<rparr>)\<rparr>
           in case callback event of
                None \<Rightarrow> (w1, tr)
              | Some c \<Rightarrow> (run c w1, tr @ [i])))"

text \<open>The timer expiry handler; \<open>i\<close> is the descriptor passed as the timer's context.\<close>

definition OnEvent ::
  "('t, 'p) platform \<Rightarrow> (AppEvent_Callback \<Rightarrow> ('t, 'p) world \<Rightarrow> ('t, 'p) world) \<Rightarrow> nat \<Rightarrow>
   ('t, 'p) world \<times> trace \<Rightarrow> ('t, 'p) world \<times> trace" where
  "OnEvent P run i s =
     (let s1 = DoTrigger run i s in
      if \<not> ev_single (m_events (fst s1) i) then (StartEvent P i (fst s1), snd s1) else s1)"

function Trigger_loop ::
  "(AppEvent_Callback \<Rightarrow> ('t, 'p) world \<Rightarrow> ('t, 'p) world) \<Rightarrow> u8 \<Rightarrow> u8 \<Rightarrow>
   ('t, 'p) world \<times> trace \<Rightarrow> fault + ('t, 'p) world \<times> trace" where
  "Trigger_loop run eid i s =
     (if i < m_numEvents (fst s) then
        (if unat i < MAX_EVENTS then
           Trigger_loop run eid (i + 1)
             (if ev_id (m_events (fst s) (unat i)) = eid then DoTrigger run (unat i) s else s)
         else Inl OUT_OF_BOUNDS)
      else Inr s)"
  by pat_completeness auto
termination
proof (relation "measure (\<lambda>(run, eid, i, s). MAX_EVENTS - unat i)")
  show "wf (measure (\<lambda>(run, eid, i, s). MAX_EVENTS - unat i))" by simp
next
  fix run :: "AppEvent_Callback \<Rightarrow> ('t, 'p) world \<Rightarrow> ('t, 'p) world"
  fix eid i :: u8 and s :: "('t, 'p) world \<times> trace"
  assume "unat i < MAX_EVENTS"
  then have "unat (i + 1) = unat i + 1"
    by (simp add: MAX_EVENTS_def unat_word_ariths)
  with \<open>unat i < MAX_EVENTS\<close>
  show "((run, eid, i + 1,
          if ev_id (m_events (fst s) (unat i)) = eid then DoTrigger run (unat i) s else s),
         run, eid, i, s) \<in> measure (\<lambda>(run, eid, i, s). MAX_EVENTS - unat i)"
    by simp
qed

declare Trigger_loop.simps [simp del]

definition AppEvent_Trigger ::
  "(AppEvent_Callback \<Rightarrow> ('t, 'p) world \<Rightarrow> ('t, 'p) world) \<Rightarrow> u8 \<Rightarrow>
   ('t, 'p) world \<times> trace \<Rightarrow> fault + ('t, 'p) world \<times> trace" where
  "AppEvent_Trigger run eid s = Trigger_loop run eid 0 s"

subsection \<open>Initialisation and registration\<close>

definition AppEvent_Init :: "('t, 'p) world \<Rightarrow> ('t, 'p) world" where
  "AppEvent_Init w =
     (if m_initialized w then w else w\<lparr>m_numEvents := 0, m_initialized := True\<rparr>)"

text \<open>
  \<^verbatim>\<open>CreateEvent\<close> returns a pointer into the table: here the index of the cell. It does
  no check of its own; the cell it writes is \<^verbatim>\<open>m_events[m_numEvents]\<close>.
\<close>

definition CreateEvent ::
  "string option \<Rightarrow> AppEvent_Callback option \<Rightarrow> APP_EVENT_CONTEXTS \<Rightarrow> ('t, 'p) world \<Rightarrow>
   fault + nat \<times> ('t, 'p) world" where
  "CreateEvent nm cb ctx w =
     (let eid = m_numEvents w; w1 = w\<lparr>m_numEvents := eid + 1\<rparr> in
      if unat eid < MAX_EVENTS then
        (let event = m_events w1 (unat eid);
             event1 = event\<lparr>ev_id := eid, triggered := False, ev_context := ctx, callback := cb,
                             irqMode := NO_IRQ,
                             diagnostics := (diagnostics event)\<lparr>debugEnable := True,
                                triggerCount := 0, processCount := 0\<rparr>,
                             ev_type := EVENT_TYPE_GENERAL, paused := False\<rparr>;
             event2 = (case nm of None \<Rightarrow> event1 | Some n \<Rightarrow> event1\<lparr>ev_name := Some n\<rparr>)
         in Inr (unat eid, w1\<lparr>m_events := (m_events w1)(unat eid := event2)\<rparr>))
      else Inl OUT_OF_BOUNDS)"

text \<open>
  The four registration entry points. \<open>eventId\<close> is the address the id is written to;
  the id written there is the first component of the result.
\<close>

definition AppEvent_RegisterEvent ::
  "ptr option \<Rightarrow> string option \<Rightarrow> AppEvent_Callback option \<Rightarrow> APP_EVENT_CONTEXTS \<Rightarrow>
   ('t, 'p) world \<Rightarrow> fault + u8 \<times> ('t, 'p) world" where
  "AppEvent_RegisterEvent eventId nm cb ctx w =
     (if \<not> m_initialized w then Inl ASSERT_FAILED
      else if \<not> unat (m_numEvents w) < MAX_EVENTS then Inl ASSERT_FAILED
      else if eventId = None then Inl ASSERT_FAILED
      else if cb = None then Inl ASSERT_FAILED
      else case CreateEvent nm cb ctx w of
             Inl f \<Rightarrow> Inl f
           | Inr (i, w1) \<Rightarrow> Inr (ev_id (m_events w1 i), w1))"

definition AppEvent_RegisterTimerWithRandomizer ::
  "('t, 'p) platform \<Rightarrow> ptr option \<Rightarrow> string option \<Rightarrow> AppEvent_Callback option \<Rightarrow> u32 \<Rightarrow> u32 \<Rightarrow>
   APP_EVENT_CONTEXTS \<Rightarrow> ('t, 'p) world \<Rightarrow> fault + u8 \<times> ('t, 'p) world" where
  "AppEvent_RegisterTimerWithRandomizer P eventId nm cb tmo rnd ctx w =
     (if \<not> m_initialized w then Inl ASSERT_FAILED
      else if \<not> unat (m_numEvents w) < MAX_EVENTS then Inl ASSERT_FAILED
      else if eventId = None then Inl ASSERT_FAILED
      else if cb = None then Inl ASSERT_FAILED
      else case CreateEvent nm cb ctx w of
             Inl f \<Rightarrow> Inl f
           | Inr (i, w1) \<Rightarrow>
               (let event = m_events w1 i;
                    event1 = event\<lparr>timer := TimerSetValue P (TimerInit P (timer event)) tmo,
                                    timeout := tmo, timeoutRandomizer := rnd,
                                    ev_type := EVENT_TYPE_TIMER\<rparr>
                in Inr (ev_id event1, w1\<lparr>m_events := (m_events w1)(i := event1)\<rparr>)))"

definition AppEvent_RegisterTimer ::
  "('t, 'p) platform \<Rightarrow> ptr option \<Rightarrow> string option \<Rightarrow> AppEvent_Callback option \<Rightarrow> u32 \<Rightarrow>
   APP_EVENT_CONTEXTS \<Rightarrow> ('t, 'p) world \<Rightarrow> fault + u8 \<times> ('t, 'p) world" where
  "AppEvent_RegisterTimer P eventId nm cb tmo ctx w =
     (if \<not> m_initialized w then Inl ASSERT_FAILED
      else AppEvent_RegisterTimerWithRandomizer P eventId nm cb tmo 0 ctx w)"

definition AppEvent_RegisterInterrupt ::
  "ptr option \<Rightarrow> string option \<Rightarrow> AppEvent_Callback option \<Rightarrow> ptr option \<Rightarrow> IrqModes \<Rightarrow>
   IrqPriorities \<Rightarrow> APP_EVENT_CONTEXTS \<Rightarrow> ('t, 'p) world \<Rightarrow> fault + u8 \<times> ('t, 'p) world" where
  "AppEvent_RegisterInterrupt eventId nm cb gpio mode prio ctx w =
     (if \<not> m_initialized w then Inl ASSERT_FAILED
      else if \<not> unat (m_numEvents w) < MAX_EVENTS then Inl ASSERT_FAILED
      else if eventId = None then Inl ASSERT_FAILED
      else if cb = None then Inl ASSERT_FAILED
      else case CreateEvent nm cb ctx w of
             Inl f \<Rightarrow> Inl f
           | Inr (i, w1) \<Rightarrow>
               (let event = m_events w1 i;
                    event1 = event\<lparr>irqGpio := gpio, irqMode := mode, irqPriority := prio,
                                    ev_type := EVENT_TYPE_INTERRUPT\<rparr>
                in Inr (ev_id event1, w1\<lparr>m_events := (m_events w1)(i := event1)\<rparr>)))"

subsection \<open>Start, Stop and the timer accessors\<close>

definition AppEvent_Start ::
  "('t, 'p) platform \<Rightarrow> u8 \<Rightarrow> bool \<Rightarrow> ('t, 'p) world \<Rightarrow> fault + ('t, 'p) world" where
  "AppEvent_Start P eid sgl w =
     (if unat eid < MAX_EVENTS then
        (let event = m_events w (unat eid);
             event1 = event\<lparr>triggered := False, ev_single := sgl,
                             diagnostics := (diagnostics event)\<lparr>startTime :=
                                TimerGetCurrentTime P (plat w)\<rparr>\<rparr>
         in Inr (StartEvent P (unat eid) (w\<lparr>m_events := (m_events w)(unat eid := event1)\<rparr>)))
      else Inl OUT_OF_BOUNDS)"

definition AppEvent_Stop ::
  "('t, 'p) platform \<Rightarrow> u8 \<Rightarrow> ('t, 'p) world \<Rightarrow> fault + ('t, 'p) world" where
  "AppEvent_Stop P eid w =
     (if unat eid < MAX_EVENTS then
        (let event = m_events w (unat eid) in
         if irqMode event = NO_IRQ then
           Inr (w\<lparr>m_events := (m_events w)(unat eid := event\<lparr>timer := TimerStop P (timer event)\<rparr>)\<rparr>)
         else
           Inr (w\<lparr>plat := GpioRemoveInterrupt P (plat w) (irqGpio event)\<rparr>))
      else Inl OUT_OF_BOUNDS)"

definition AppEvent_GetTimeout :: "u8 \<Rightarrow> ('t, 'p) world \<Rightarrow> fault + u32" where
  "AppEvent_GetTimeout eid w =
     (if unat eid < MAX_EVENTS then
        (let event = m_events w (unat eid) in
         if irqGpio event \<noteq> None then Inl ASSERT_FAILED else Inr (timeout event))
      else Inl OUT_OF_BOUNDS)"

definition AppEvent_SetTimeout ::
  "('t, 'p) platform \<Rightarrow> u8 \<Rightarrow> u32 \<Rightarrow> ('t, 'p) world \<Rightarrow> fault + ('t, 'p) world" where
  "AppEvent_SetTimeout P eid tmo w =
     (if unat eid < MAX_EVENTS then
        (let event = m_events w (unat eid) in
         if irqGpio event \<noteq> None then Inl ASSERT_FAILED
         else Inr (w\<lparr>m_events := (m_events w)(unat eid :=
                      event\<lparr>timer := TimerSetValue P (timer event) tmo,
                            triggered := False, timeout := tmo\<rparr>)\<rparr>))
      else Inl OUT_OF_BOUNDS)"

definition AppEvent_TimeRemaining ::
  "('t, 'p) platform \<Rightarrow> u8 \<Rightarrow> ('t, 'p) world \<Rightarrow> fault + u32" where
  "AppEvent_TimeRemaining P eid w =
     (if unat eid < MAX_EVENTS then
        Inr (TimerTimeRemaining P (plat w) (timer (m_events w (unat eid))))
      else Inl OUT_OF_BOUNDS)"

definition AppEvent_Running ::
  "('t, 'p) platform \<Rightarrow> u8 \<Rightarrow> ('t, 'p) world \<Rightarrow> fault + bool" where
  "AppEvent_Running P eid w =
     (if unat eid < MAX_EVENTS then Inr (TimerRunning P (timer (m_events w (unat eid))))
      else Inl OUT_OF_BOUNDS)"

subsection \<open>The main-loop sweep\<close>

text \<open>
  The admission test of the sweep, read after \<^verbatim>\<open>triggered\<close> was cleared: interrupt
  events, single events, continuous timer events whose timer still runs, and general
  events.
\<close>

definition admitted :: "('t, 'p) platform \<Rightarrow> 't AppEvent_t \<Rightarrow> bool" where
  "admitted P event =
     (irqMode event \<noteq> NO_IRQ \<or> ev_single event \<or> TimerRunning P (timer event)
      \<or> ev_type event = EVENT_TYPE_GENERAL)"

text \<open>One iteration of the loop of \<^verbatim>\<open>AppEvent_ProcessMainEvents\<close>, at index \<open>i\<close>.\<close>

definition ProcessMainEvents_body ::
  "('t, 'p) platform \<Rightarrow> (AppEvent_Callback \<Rightarrow> ('t, 'p) world \<Rightarrow> ('t, 'p) world) \<Rightarrow> nat \<Rightarrow>
   ('t, 'p) world \<times> trace \<Rightarrow> ('t, 'p) world \<times> trace" where
  "ProcessMainEvents_body P run i s =
     (let w = fst s; tr = snd s; event = m_events w i in
      if triggered event \<and> \<not> paused event then
        (let event1 = event\<lparr>triggered := False\<rparr> in
         if admitted P event1 then
           (let d = diagnostics event1;
                event2 = event1\<lparr>diagnostics := d\<lparr>processCount := processCount d + 1\<rparr>\<rparr>;
                w2 = w\<lparr>m_events := (m_events w)(i := event2)\<rparr>
            in case callback event2 of
                 None \<Rightarrow> (w2, tr)
               | Some c \<Rightarrow> (run c w2, tr @ [i]))
         else (w\<lparr>m_events := (m_events w)(i := event1)\<rparr>, tr))
      else s)"

function ProcessMainEvents_loop ::
  "('t, 'p) platform \<Rightarrow> (AppEvent_Callback \<Rightarrow> ('t, 'p) world \<Rightarrow> ('t, 'p) world) \<Rightarrow> u8 \<Rightarrow>
   ('t, 'p) world \<times> trace \<Rightarrow> fault + ('t, 'p) world \<times> trace" where
  "ProcessMainEvents_loop P run eid s =
     (if eid < m_numEvents (fst s) then
        (if unat eid < MAX_EVENTS then
           ProcessMainEvents_loop P run (eid + 1) (ProcessMainEvents_body P run (unat eid) s)
         else Inl OUT_OF_BOUNDS)
      else Inr s)"
  by pat_completeness auto
termination
proof (relation "measure (\<lambda>(P, run, eid, s). MAX_EVENTS - unat eid)")
  show "wf (measure (\<lambda>(P, run, eid, s). MAX_EVENTS - unat eid))" by simp
next
  fix P :: "('t, 'p) platform"
  fix run :: "AppEvent_Callback \<Rightarrow> ('t, 'p) world \<Rightarrow> ('t, 'p) world"
  fix eid :: u8 and s :: "('t, 'p) world \<times> trace"
  assume "unat eid < MAX_EVENTS"
  then have "unat (eid + 1) = unat eid + 1"
    by (simp add: MAX_EVENTS_def unat_word_ariths)
  with \<open>unat eid < MAX_EVENTS\<close>
  show "((P, run, eid + 1, ProcessMainEvents_body P run (unat eid) s), P, run, eid, s)
        \<in> measure (\<lambda>(P, run, eid, s). MAX_EVENTS - unat eid)"
    by simp
qed

declare ProcessMainEvents_loop.simps [simp del]

definition AppEvent_ProcessMainEvents ::
  "('t, 'p) platform \<Rightarrow> (AppEvent_Callback \<Rightarrow> ('t, 'p) world \<Rightarrow> ('t, 'p) world) \<Rightarrow>
   ('t, 'p) world \<times> trace \<Rightarrow> fault + ('t, 'p) world \<times> trace" where
  "AppEvent_ProcessMainEvents P run s = ProcessMainEvents_loop P run 0 s"

definition AppEvent_Pause :: "u8 \<Rightarrow> ('t, 'p) world \<Rightarrow> fault + ('t, 'p) world" where
  "AppEvent_Pause eid w =
     (if unat eid < MAX_EVENTS then
        (let event = m_events w (unat eid) in
         if ev_context event \<noteq> APP_EVENT_CONTEXT_MAIN then Inl ASSERT_FAILED
         else Inr (w\<lparr>m_events := (m_events w)(unat eid := event\<lparr>paused := True\<rparr>)\<rparr>))
      else Inl OUT_OF_BOUNDS)"

definition AppEvent_Resume :: "u8 \<Rightarrow> ('t, 'p) world \<Rightarrow> fault + ('t, 'p) world" where
  "AppEvent_Resume eid w =
     (if unat eid < MAX_EVENTS then
        (let event = m_events w (unat eid) in
         if ev_context event \<noteq> APP_EVENT_CONTEXT_MAIN then Inl ASSERT_FAILED
         else Inr (w\<lparr>m_events := (m_events w)(unat eid := event\<lparr>paused := False\<rparr>)\<rparr>))
      else Inl OUT_OF_BOUNDS)"

subsection \<open>The state at start-up\<close>

text \<open>
  The statics are zero-initialised by the C runtime: counts and numbers are 0, flags
  false, pointers \<^verbatim>\<open>NULL\<close>, enumerations their first value. \<open>t0\<close> is the all-zero
  timer object and \<open>p0\<close> the platform's state at start-up.
\<close>

definition zero_event :: "'t \<Rightarrow> 't AppEvent_t" where
  "zero_event t0 =
     \<lparr>ev_name = None, ev_context = APP_EVENT_CONTEXT_MAIN, callback = None, triggered = False,
      paused = False, ev_single = False, ev_id = 0, ev_type = EVENT_TYPE_GENERAL, timer = t0,
      timeout = 0, timeoutRandomizer = 0, irqGpio = None, irqMode = NO_IRQ, irqPriority = 0,
      diagnostics = \<lparr>debugEnable = False, startTime = 0, triggerCount = 0, processCount = 0\<rparr>\<rparr>"

definition boot :: "'t \<Rightarrow> 'p \<Rightarrow> ('t, 'p) world" where
  "boot t0 p0 =
     \<lparr>m_numEvents = 0, m_events = (\<lambda>i. zero_event t0), m_initialized = False, plat = p0\<rparr>"

subsection \<open>What registration establishes\<close>

text \<open>
  A registered descriptor carries its own index as id and a callback that is not
  \<^verbatim>\<open>NULL\<close>; unless it was registered as an interrupt event it has no interrupt mode
  and no GPIO line. Cells not yet handed out hold no GPIO line either.
\<close>

definition slot_inv :: "'t AppEvent_t \<Rightarrow> nat \<Rightarrow> bool" where
  "slot_inv e i =
     (ev_id e = of_nat i \<and> callback e \<noteq> None
      \<and> (ev_type e \<noteq> EVENT_TYPE_INTERRUPT \<longrightarrow> irqMode e = NO_IRQ \<and> irqGpio e = None))"

definition registry_inv :: "('t, 'p) world \<Rightarrow> bool" where
  "registry_inv w =
     (unat (m_numEvents w) \<le> MAX_EVENTS
      \<and> (\<not> m_initialized w \<longrightarrow> m_numEvents w = 0)
      \<and> list_all (\<lambda>i. slot_inv (m_events w i) i) [0..<unat (m_numEvents w)]
      \<and> list_all (\<lambda>i. irqGpio (m_events w i) = None) [unat (m_numEvents w)..<MAX_EVENTS])"

text \<open>The event with index \<open>i\<close> has been registered.\<close>

definition registered :: "('t, 'p) world \<Rightarrow> nat \<Rightarrow> bool" where
  "registered w i = (registry_inv w \<and> i < unat (m_numEvents w))"

subsection \<open>Sequences of registrations\<close>

datatype reg_call =
    RegisterEvent "ptr option" "string option" "AppEvent_Callback option" APP_EVENT_CONTEXTS
  | RegisterTimer "ptr option" "string option" "AppEvent_Callback option" u32 APP_EVENT_CONTEXTS
  | RegisterTimerWithRandomizer "ptr option" "string option" "AppEvent_Callback option" u32 u32
      APP_EVENT_CONTEXTS
  | RegisterInterrupt "ptr option" "string option" "AppEvent_Callback option" "ptr option" IrqModes
      IrqPriorities APP_EVENT_CONTEXTS

fun register_call ::
  "('t, 'p) platform \<Rightarrow> reg_call \<Rightarrow> ('t, 'p) world \<Rightarrow> fault + u8 \<times> ('t, 'p) world" where
  "register_call P (RegisterEvent a nm cb ctx) w = AppEvent_RegisterEvent a nm cb ctx w"
| "register_call P (RegisterTimer a nm cb tmo ctx) w = AppEvent_RegisterTimer P a nm cb tmo ctx w"
| "register_call P (RegisterTimerWithRandomizer a nm cb tmo rnd ctx) w =
     AppEvent_RegisterTimerWithRandomizer P a nm cb tmo rnd ctx w"
| "register_call P (RegisterInterrupt a nm cb gpio mode prio ctx) w =
     AppEvent_RegisterInterrupt a nm cb gpio mode prio ctx w"

text \<open>Registrations one after the other; the ids are collected in the order returned.\<close>

fun register_all ::
  "('t, 'p) platform \<Rightarrow> reg_call list \<Rightarrow> ('t, 'p) world \<Rightarrow> fault + u8 list \<times> ('t, 'p) world" where
  "register_all P [] w = Inr ([], w)"
| "register_all P (r # rs) w =
     (case register_call P r w of
        Inl f \<Rightarrow> Inl f
      | Inr (i, w1) \<Rightarrow>
          (case register_all P rs w1 of
             Inl f \<Rightarrow> Inl f
           | Inr (ids, w2) \<Rightarrow> Inr (i # ids, w2)))"

text \<open>The ids stored in the registered descriptors, in table order.\<close>

definition assigned_ids :: "('t, 'p) world \<Rightarrow> nat list" where
  "assigned_ids w = map (\<lambda>i. unat (ev_id (m_events w i))) [0..<unat (m_numEvents w)]"

subsection \<open>A simulated platform\<close>

text \<open>
  Modelled from the spec: the timer, GPIO and clock services that event.c consumes are
  not in this code base. This is the plainest service with the operations the spec
  lists (init, set-period, start, stop, query-running, query-time-remaining, current
  time): a timer object holds a started flag and its period, the platform state is the
  clock, the jitter drawn is always 0 and the GPIO driver keeps no state. It is used to
  run concrete scenarios only; the general theorems hold for every platform.
\<close>

record sim_timer =
  IsStarted :: bool
  ReloadValue :: u32

definition sim_platform :: "(sim_timer, u32) platform" where
  "sim_platform =
     \<lparr>TimerInit = (\<lambda>t. \<lparr>IsStarted = False, ReloadValue = 0\<rparr>),
      TimerSetValue = (\<lambda>t v. t\<lparr>ReloadValue := v\<rparr>),
      TimerStartWithParam = (\<lambda>t. t\<lparr>IsStarted := True\<rparr>),
      TimerStop = (\<lambda>t. t\<lparr>IsStarted := False\<rparr>),
      TimerRunning = IsStarted,
      TimerTimeRemaining = (\<lambda>p t. if IsStarted t then ReloadValue t else 0),
      TimerGetCurrentTime = (\<lambda>p. p),
      randomOffset = (\<lambda>p r. (0, p)),
      GpioSetInterrupt = (\<lambda>p g m q. p),
      GpioMcuSetContext = (\<lambda>p g. p),
      GpioRemoveInterrupt = (\<lambda>p g. p)\<rparr>"

definition sim_boot :: "(sim_timer, u32) world" where
  "sim_boot = AppEvent_Init (boot \<lparr>IsStarted = False, ReloadValue = 0\<rparr> 0)"

text \<open>Callbacks that leave the dispatcher's state alone.\<close>

definition idle_run :: "AppEvent_Callback \<Rightarrow> ('t, 'p) world \<Rightarrow> ('t, 'p) world" where
  "idle_run c w = w"

text \<open>The scenario used for concrete runs: a general, a timer and an interrupt event.\<close>

definition three_regs :: "reg_call list" where
  "three_regs =
     [RegisterEvent (Some 0) (Some ''G'') (Some 1) APP_EVENT_CONTEXT_MAIN,
      RegisterTimer (Some 0) (Some ''T'') (Some 2) 100 APP_EVENT_CONTEXT_MAIN,
      RegisterInterrupt (Some 0) None (Some 3) (Some 7) IRQ_RISING_EDGE 0 APP_EVENT_CONTEXT_IMMEDIATE]"

definition sim_world :: "(sim_timer, u32) world" where
  "sim_world = snd (projr (register_all sim_platform three_regs sim_boot))"

subsection \<open>Notions used to state the properties\<close>

text \<open>
  The callbacks neither register events nor touch the descriptor with index \<open>i\<close>.
\<close>

definition leaves_alone ::
  "(AppEvent_Callback \<Rightarrow> ('t, 'p) world \<Rightarrow> ('t, 'p) world) \<Rightarrow> nat \<Rightarrow> bool" where
  "leaves_alone run i =
     (\<forall>c w. m_numEvents (run c w) = m_numEvents w \<and> m_events (run c w) i = m_events w i)"

text \<open>\<open>k\<close> sweeps of the main loop, one after the other.\<close>

fun sweeps ::
  "('t, 'p) platform \<Rightarrow> (AppEvent_Callback \<Rightarrow> ('t, 'p) world \<Rightarrow> ('t, 'p) world) \<Rightarrow> nat \<Rightarrow>
   ('t, 'p) world \<times> trace \<Rightarrow> fault + ('t, 'p) world \<times> trace" where
  "sweeps P run 0 s = Inr s"
| "sweeps P run (Suc k) s =
     (case AppEvent_ProcessMainEvents P run s of Inl f \<Rightarrow> Inl f | Inr s1 \<Rightarrow> sweeps P run k s1)"

text \<open>
  The fields of a descriptor that are written at registration only, and the relation
  between two states whose tables agree on them.
\<close>

definition same_identity :: "'t AppEvent_t \<Rightarrow> 't AppEvent_t \<Rightarrow> bool" where
  "same_identity e e' =
     (ev_id e' = ev_id e \<and> callback e' = callback e \<and> ev_context e' = ev_context e
      \<and> ev_type e' = ev_type e \<and> irqMode e' = irqMode e \<and> irqGpio e' = irqGpio e)"

definition same_registry :: "('t, 'p) world \<Rightarrow> ('t, 'p) world \<Rightarrow> bool" where
  "same_registry w w' =
     (m_numEvents w' = m_numEvents w \<and> m_initialized w' = m_initialized w
      \<and> (\<forall>j. same_identity (m_events w j) (m_events w' j)))"

subsection \<open>Scenarios on the simulated platform\<close>

text \<open>
  Each state is reached from start-up through the operations of event.c alone. Event 0
  is the general event, event 1 the timer event with a period of 100 ms, event 2 the
  interrupt event; events 0 and 1 are processed in the main loop.
\<close>

text \<open>Event 0 was triggered by hand and waits for the sweep.\<close>

definition sim_pending :: "(sim_timer, u32) world" where
  "sim_pending = fst (projr (AppEvent_Trigger idle_run 0 (sim_world, [])))"

text \<open>The timer event was started as a continuous event.\<close>

definition sim_armed :: "(sim_timer, u32) world" where
  "sim_armed = projr (AppEvent_Start sim_platform 1 False sim_world)"

text \<open>Then its timer expired three times, with no sweep in between.\<close>

definition sim_fired :: "(sim_timer, u32) world" where
  "sim_fired = fst ((OnEvent sim_platform idle_run 1 ^^ 3) (sim_armed, []))"

text \<open>The same, but the event was paused before the timer expired.\<close>

definition sim_paused_fired :: "(sim_timer, u32) world" where
  "sim_paused_fired =
     fst ((OnEvent sim_platform idle_run 1 ^^ 3) (projr (AppEvent_Pause 1 sim_armed), []))"

text \<open>The paused event is resumed; in the first state it was stopped before that.\<close>

definition sim_paused_stopped_resumed :: "(sim_timer, u32) world" where
  "sim_paused_stopped_resumed =
     projr (AppEvent_Resume 1 (projr (AppEvent_Stop sim_platform 1 sim_paused_fired)))"

definition sim_paused_resumed :: "(sim_timer, u32) world" where
  "sim_paused_resumed = projr (AppEvent_Resume 1 sim_paused_fired)"




text \<open>The paused event after two sweeps of the main loop.\<close>

definition sim_paused_swept :: "(sim_timer, u32) world \<times> trace" where
  "sim_paused_swept = projr (sweeps sim_platform idle_run 2 (sim_paused_fired, []))"

section \<open>Properties\<close>

subsection \<open>Registration\<close>

text \<open>
  What a successful registration returns and changes: the id is the former count, the
  count grows by one, and only the cell with that index is written.
\<close>

lemma CreateEvent_Inr:
  assumes "CreateEvent nm cb ctx w = Inr (i, w1)"
  shows "i = unat (m_numEvents w) \<and> i < MAX_EVENTS \<and> m_numEvents w1 = m_numEvents w + 1
     \<and> m_initialized w1 = m_initialized w \<and> plat w1 = plat w
     \<and> (\<forall>j. j \<noteq> i \<longrightarrow> m_events w1 j = m_events w j)
     \<and> ev_id (m_events w1 i) = m_numEvents w \<and> callback (m_events w1 i) = cb
     \<and> irqMode (m_events w1 i) = NO_IRQ \<and> ev_type (m_events w1 i) = EVENT_TYPE_GENERAL
     \<and> irqGpio (m_events w1 i) = irqGpio (m_events w i)"
  using assms by (auto simp: CreateEvent_def Let_def split: if_splits option.splits)

lemma register_call_Inr:
  assumes "register_call P r w = Inr (eid, w1)"
  shows "eid = m_numEvents w \<and> unat (m_numEvents w) < MAX_EVENTS \<and> m_initialized w
     \<and> m_numEvents w1 = m_numEvents w + 1 \<and> m_initialized w1
     \<and> (\<forall>j. j \<noteq> unat eid \<longrightarrow> m_events w1 j = m_events w j)
     \<and> ev_id (m_events w1 (unat eid)) = eid \<and> callback (m_events w1 (unat eid)) \<noteq> None
     \<and> (ev_type (m_events w1 (unat eid)) \<noteq> EVENT_TYPE_INTERRUPT \<longrightarrow>
          irqMode (m_events w1 (unat eid)) = NO_IRQ
          \<and> irqGpio (m_events w1 (unat eid)) = irqGpio (m_events w (unat eid)))"
proof (cases r)
  case (RegisterEvent a nm cb ctx)
  with assms show ?thesis
    by (auto simp: AppEvent_RegisterEvent_def split: if_splits sum.splits dest!: CreateEvent_Inr)
next
  case (RegisterTimer a nm cb tmo ctx)
  with assms show ?thesis
    by (auto simp: AppEvent_RegisterTimer_def AppEvent_RegisterTimerWithRandomizer_def Let_def
             split: if_splits sum.splits dest!: CreateEvent_Inr)
next
  case (RegisterTimerWithRandomizer a nm cb tmo rnd ctx)
  with assms show ?thesis
    by (auto simp: AppEvent_RegisterTimerWithRandomizer_def Let_def
             split: if_splits sum.splits dest!: CreateEvent_Inr)
next
  case (RegisterInterrupt a nm cb gpio mode prio ctx)
  with assms show ?thesis
    by (auto simp: AppEvent_RegisterInterrupt_def Let_def
             split: if_splits sum.splits dest!: CreateEvent_Inr)
qed

lemma register_all_ids:
  "register_all P rs w = Inr (ids, w') \<Longrightarrow>
     map unat ids = [unat (m_numEvents w)..<unat (m_numEvents w) + length rs]
     \<and> unat (m_numEvents w') = unat (m_numEvents w) + length rs
     \<and> (assigned_ids w = [0..<unat (m_numEvents w)] \<longrightarrow>
          assigned_ids w' = [0..<unat (m_numEvents w')])"
proof (induction rs arbitrary: w ids)
  case Nil
  then show ?case by simp
next
  case (Cons r rs)
  from Cons.prems obtain i w1 ids1 where r: "register_call P r w = Inr (i, w1)"
    and rest: "register_all P rs w1 = Inr (ids1, w')" and ids: "ids = i # ids1"
    by (auto split: sum.splits)
  from register_call_Inr [OF r] have i: "i = m_numEvents w" and lt: "unat (m_numEvents w) < MAX_EVENTS"
    and n1: "m_numEvents w1 = m_numEvents w + 1"
    and oth: "\<forall>j. j \<noteq> unat i \<longrightarrow> m_events w1 j = m_events w j"
    and id1: "ev_id (m_events w1 (unat i)) = i"
    by blast+
  from lt n1 have u1: "unat (m_numEvents w1) = Suc (unat (m_numEvents w))"
    by (simp add: MAX_EVENTS_def unat_word_ariths)
  have same: "map (\<lambda>j. unat (ev_id (m_events w1 j))) [0..<unat (m_numEvents w)]
              = map (\<lambda>j. unat (ev_id (m_events w j))) [0..<unat (m_numEvents w)]"
    using oth i by (intro map_cong) auto
  have a1: "assigned_ids w = [0..<unat (m_numEvents w)] \<Longrightarrow>
            assigned_ids w1 = [0..<unat (m_numEvents w1)]"
    using same id1 i u1 by (simp add: assigned_ids_def)
  note ih = Cons.IH [OF rest]
  have "map unat ids = unat (m_numEvents w) # [Suc (unat (m_numEvents w))..<Suc (unat (m_numEvents w)) + length rs]"
    using ih u1 ids i by simp
  also have "\<dots> = [unat (m_numEvents w)..<unat (m_numEvents w) + length (r # rs)]"
    by (simp add: upt_conv_Cons del: upt_Suc)
  finally have g1: "map unat ids = [unat (m_numEvents w)..<unat (m_numEvents w) + length (r # rs)]" .
  have g2: "unat (m_numEvents w') = unat (m_numEvents w) + length (r # rs)"
    using ih u1 by simp
  have g3: "assigned_ids w = [0..<unat (m_numEvents w)] \<longrightarrow>
            assigned_ids w' = [0..<unat (m_numEvents w')]"
    using ih a1 by blast
  from g1 g2 g3 show ?case by blast
qed

subsection \<open>The registry invariant\<close>

text \<open>
  The invariant of the registry holds at start-up and is kept by \<open>AppEvent_Init\<close> and
  by every registration.
\<close>

lemma registry_inv_alt:
  "registry_inv w \<longleftrightarrow>
     unat (m_numEvents w) \<le> MAX_EVENTS \<and> (\<not> m_initialized w \<longrightarrow> m_numEvents w = 0)
     \<and> (\<forall>j < unat (m_numEvents w). slot_inv (m_events w j) j)
     \<and> (\<forall>j. unat (m_numEvents w) \<le> j \<and> j < MAX_EVENTS \<longrightarrow> irqGpio (m_events w j) = None)"
  by (auto simp: registry_inv_def list_all_iff)

lemma registered_slot:
  assumes "registered w i"
  shows "i < MAX_EVENTS" and "ev_id (m_events w i) = of_nat i" and "callback (m_events w i) \<noteq> None"
    and "ev_type (m_events w i) \<noteq> EVENT_TYPE_INTERRUPT \<Longrightarrow>
           irqMode (m_events w i) = NO_IRQ \<and> irqGpio (m_events w i) = None"
    and "unat (m_numEvents w) \<le> MAX_EVENTS"
  using assms by (auto simp: registered_def registry_inv_def list_all_iff slot_inv_def)

lemma registry_inv_boot: "registry_inv (boot t0 p0)"
  by (simp add: registry_inv_alt boot_def zero_event_def)

lemma registry_inv_Init: "registry_inv w \<Longrightarrow> registry_inv (AppEvent_Init w)"
  by (simp add: registry_inv_alt AppEvent_Init_def)

lemma registry_inv_register_call:
  assumes inv: "registry_inv w" and r: "register_call P r w = Inr (eid, w1)"
  shows "registry_inv w1"
proof -
  from register_call_Inr [OF r] have e: "eid = m_numEvents w" and lt: "unat (m_numEvents w) < MAX_EVENTS"
    and n1: "m_numEvents w1 = m_numEvents w + 1" and ini: "m_initialized w1"
    and oth: "\<forall>j. j \<noteq> unat eid \<longrightarrow> m_events w1 j = m_events w j"
    and id1: "ev_id (m_events w1 (unat eid)) = eid"
    and cb: "callback (m_events w1 (unat eid)) \<noteq> None"
    and irq: "ev_type (m_events w1 (unat eid)) \<noteq> EVENT_TYPE_INTERRUPT \<longrightarrow>
          irqMode (m_events w1 (unat eid)) = NO_IRQ
          \<and> irqGpio (m_events w1 (unat eid)) = irqGpio (m_events w (unat eid))"
    by blast+
  from lt n1 have u1: "unat (m_numEvents w1) = Suc (unat (m_numEvents w))"
    by (simp add: MAX_EVENTS_def unat_word_ariths)
  from inv lt have free: "irqGpio (m_events w (unat eid)) = None"
    by (simp add: registry_inv_alt e)
  have new: "slot_inv (m_events w1 (unat eid)) (unat eid)"
    using id1 cb irq free by (simp add: slot_inv_def)
  show ?thesis
    unfolding registry_inv_alt
  proof (intro conjI allI impI)
    show "unat (m_numEvents w1) \<le> MAX_EVENTS" using u1 lt by simp
    show "m_numEvents w1 = 0" if "\<not> m_initialized w1" using that ini by simp
    show "slot_inv (m_events w1 j) j" if "j < unat (m_numEvents w1)" for j
    proof (cases "j = unat eid")
      case True
      with new show ?thesis by simp
    next
      case False
      with that u1 e have "j < unat (m_numEvents w)" by simp
      with inv oth False show ?thesis by (simp add: registry_inv_alt)
    qed
    show "irqGpio (m_events w1 j) = None"
      if "unat (m_numEvents w1) \<le> j \<and> j < MAX_EVENTS" for j
      using that u1 e inv oth by (simp add: registry_inv_alt)
  qed
qed

lemma registry_inv_register_all:
  "registry_inv w \<Longrightarrow> register_all P rs w = Inr (ids, w') \<Longrightarrow> registry_inv w'"
proof (induction rs arbitrary: w ids)
  case Nil
  then show ?case by simp
next
  case (Cons r rs)
  from Cons.prems(2) obtain i w1 ids1 where r: "register_call P r w = Inr (i, w1)"
    and rest: "register_all P rs w1 = Inr (ids1, w')"
    by (auto split: sum.splits)
  from Cons.IH [OF registry_inv_register_call [OF Cons.prems(1) r] rest] show ?case .
qed

lemma registered_id_neq:
  assumes "registry_inv w" and "j < unat (m_numEvents w)" and "j \<noteq> unat eid"
  shows "ev_id (m_events w j) \<noteq> eid"
proof -
  from assms(1,2) have id: "ev_id (m_events w j) = of_nat j" and "j < MAX_EVENTS"
    by (simp_all add: registry_inv_alt slot_inv_def)
  then have "unat (of_nat j :: u8) = j" by (simp add: MAX_EVENTS_def unat_of_nat)
  with assms(3) have "(of_nat j :: u8) \<noteq> eid" by auto
  with id show ?thesis by simp
qed

subsection \<open>Operations that keep the registry\<close>

text \<open>
  No other operation writes the count or the fields set at registration. The trigger
  path and the sweep call user code, for which this is assumed.
\<close>

lemma same_registry_refl: "same_registry w w"
  by (simp add: same_registry_def same_identity_def)

lemma same_registry_trans: "same_registry w w1 \<Longrightarrow> same_registry w1 w2 \<Longrightarrow> same_registry w w2"
  by (simp add: same_registry_def same_identity_def)

lemma registry_inv_same: "same_registry w w' \<Longrightarrow> registry_inv w \<Longrightarrow> registry_inv w'"
  by (simp add: same_registry_def same_identity_def registry_inv_alt slot_inv_def)

lemma registered_same: "same_registry w w' \<Longrightarrow> registered w i \<Longrightarrow> registered w' i"
  using registry_inv_same [of w w'] by (simp add: registered_def same_registry_def)

lemma assigned_ids_same: "same_registry w w' \<Longrightarrow> assigned_ids w' = assigned_ids w"
  by (simp add: same_registry_def same_identity_def assigned_ids_def)

lemma StartEvent_same: "same_registry w (StartEvent P i w)"
  by (simp add: StartEvent_def Let_def same_registry_def same_identity_def split: prod.splits)

lemma Start_same: "AppEvent_Start P eid sgl w = Inr w1 \<Longrightarrow> same_registry w w1"
  by (auto simp: AppEvent_Start_def StartEvent_def Let_def same_registry_def same_identity_def
           split: if_splits prod.splits)

lemma Stop_same: "AppEvent_Stop P eid w = Inr w1 \<Longrightarrow> same_registry w w1"
  by (auto simp: AppEvent_Stop_def Let_def same_registry_def same_identity_def split: if_splits)

lemma SetTimeout_same: "AppEvent_SetTimeout P eid t w = Inr w1 \<Longrightarrow> same_registry w w1"
  by (auto simp: AppEvent_SetTimeout_def Let_def same_registry_def same_identity_def split: if_splits)

lemma Pause_same: "AppEvent_Pause eid w = Inr w1 \<Longrightarrow> same_registry w w1"
  by (auto simp: AppEvent_Pause_def Let_def same_registry_def same_identity_def split: if_splits)

lemma Resume_same: "AppEvent_Resume eid w = Inr w1 \<Longrightarrow> same_registry w w1"
  by (auto simp: AppEvent_Resume_def Let_def same_registry_def same_identity_def split: if_splits)

lemma DoTrigger_same:
  assumes "\<forall>c v. same_registry v (run c v)"
  shows "same_registry (fst s) (fst (DoTrigger run i s))"
proof (cases "ev_context (m_events (fst s) i)")
  case APP_EVENT_CONTEXT_MAIN
  then show ?thesis
    by (simp add: DoTrigger_def Let_def same_registry_def same_identity_def)
next
  case APP_EVENT_CONTEXT_IMMEDIATE
  let ?e = "m_events (fst s) i"
  let ?w1 = "(fst s)\<lparr>m_events := (m_events (fst s))(i := ?e\<lparr>diagnostics := (diagnostics ?e)\<lparr>
                 triggerCount := triggerCount (diagnostics ?e) + 1,
                 processCount := processCount (diagnostics ?e) + 1\<rparr>\<rparr>)\<rparr>"
  have a: "same_registry (fst s) ?w1"
    by (simp add: same_registry_def same_identity_def)
  show ?thesis
  proof (cases "callback ?e")
    case None
    with APP_EVENT_CONTEXT_IMMEDIATE a show ?thesis by (simp add: DoTrigger_def Let_def)
  next
    case (Some c)
    from same_registry_trans [OF a assms [rule_format, of ?w1 c]]
    show ?thesis using Some APP_EVENT_CONTEXT_IMMEDIATE by (simp add: DoTrigger_def Let_def)
  qed
qed

lemma OnEvent_same:
  assumes "\<forall>c v. same_registry v (run c v)"
  shows "same_registry (fst s) (fst (OnEvent P run i s))"
  using DoTrigger_same [OF assms, of s i]
    same_registry_trans [OF DoTrigger_same [OF assms, of s i] StartEvent_same]
  by (simp add: OnEvent_def Let_def)

lemma OnEvent_funpow_same:
  assumes "\<forall>c v. same_registry v (run c v)"
  shows "same_registry (fst s) (fst ((OnEvent P run i ^^ n) s))"
proof (induction n)
  case 0
  show ?case by (simp add: same_registry_refl)
next
  case (Suc n)
  from same_registry_trans [OF Suc OnEvent_same [OF assms]] show ?case by simp
qed

lemma Trigger_loop_same:
  assumes cb: "\<forall>c v. same_registry v (run c v)"
  shows "Trigger_loop run eid i s = Inr s' \<Longrightarrow> same_registry (fst s) (fst s')"
  using cb
proof (induction run eid i s rule: Trigger_loop.induct)
  case (1 run eid i s)
  show ?case
  proof (cases "i < m_numEvents (fst s) \<and> unat i < MAX_EVENTS")
    case True
    let ?s1 = "if ev_id (m_events (fst s) (unat i)) = eid then DoTrigger run (unat i) s else s"
    from True "1.prems"(1) have r: "Trigger_loop run eid (i + 1) ?s1 = Inr s'"
      by (simp add: Trigger_loop.simps [of run eid i s])
    have a: "same_registry (fst s) (fst ?s1)"
      using DoTrigger_same [OF "1.prems"(2), of s "unat i"] by (simp add: same_registry_refl)
    from "1.IH" [OF _ _ r "1.prems"(2)] True have "same_registry (fst ?s1) (fst s')" by simp
    with a show ?thesis by (rule same_registry_trans)
  next
    case False
    with "1.prems" show ?thesis
      by (auto simp: Trigger_loop.simps [of run eid i s] same_registry_refl split: if_splits)
  qed
qed

lemma Trigger_same:
  "\<forall>c v. same_registry v (run c v) \<Longrightarrow> AppEvent_Trigger run eid s = Inr s'
     \<Longrightarrow> same_registry (fst s) (fst s')"
  unfolding AppEvent_Trigger_def by (rule Trigger_loop_same)

lemma body_same:
  assumes "\<forall>c v. same_registry v (run c v)"
  shows "same_registry (fst s) (fst (ProcessMainEvents_body P run i s))"
proof -
  let ?e = "m_events (fst s) i"
  let ?w2 = "(fst s)\<lparr>m_events := (m_events (fst s))(i := ?e\<lparr>triggered := False,
               diagnostics := (diagnostics ?e)\<lparr>processCount := processCount (diagnostics ?e) + 1\<rparr>\<rparr>)\<rparr>"
  have a: "same_registry (fst s) ?w2"
    by (simp add: same_registry_def same_identity_def)
  have b: "same_registry (fst s) ((fst s)\<lparr>m_events := (m_events (fst s))(i := ?e\<lparr>triggered := False\<rparr>)\<rparr>)"
    by (simp add: same_registry_def same_identity_def)
  have c: "same_registry (fst s) (run c ?w2)" for c
    by (rule same_registry_trans [OF a assms [rule_format]])
  from a b c show ?thesis
    by (simp add: ProcessMainEvents_body_def Let_def same_registry_refl split: option.splits)
qed

lemma sweep_loop_same:
  assumes cb: "\<forall>c v. same_registry v (run c v)"
  shows "ProcessMainEvents_loop P run eid s = Inr s' \<Longrightarrow> same_registry (fst s) (fst s')"
  using cb
proof (induction P run eid s rule: ProcessMainEvents_loop.induct)
  case (1 P run eid s)
  show ?case
  proof (cases "eid < m_numEvents (fst s) \<and> unat eid < MAX_EVENTS")
    case True
    let ?s1 = "ProcessMainEvents_body P run (unat eid) s"
    from True "1.prems"(1) have r: "ProcessMainEvents_loop P run (eid + 1) ?s1 = Inr s'"
      by (simp add: ProcessMainEvents_loop.simps [of P run eid s])
    from "1.IH" [OF _ _ r "1.prems"(2)] True have "same_registry (fst ?s1) (fst s')" by simp
    with body_same [OF "1.prems"(2)] show ?thesis by (rule same_registry_trans)
  next
    case False
    with "1.prems" show ?thesis
      by (auto simp: ProcessMainEvents_loop.simps [of P run eid s] same_registry_refl split: if_splits)
  qed
qed

lemma sweep_same:
  "\<forall>c v. same_registry v (run c v) \<Longrightarrow> AppEvent_ProcessMainEvents P run s = Inr s'
     \<Longrightarrow> same_registry (fst s) (fst s')"
  unfolding AppEvent_ProcessMainEvents_def by (rule sweep_loop_same)

lemma idle_run_same: "\<forall>c v. same_registry v (idle_run c v)"
  by (simp add: idle_run_def same_registry_refl)

subsection \<open>Single operations\<close>

text \<open>
  The effect of \<open>Start\<close>, \<open>Stop\<close> and of the timer expiry handler on the descriptor they
  are applied to.
\<close>

lemma unat_suc_u8: "unat (e :: u8) < MAX_EVENTS \<Longrightarrow> unat (e + 1) = Suc (unat e)"
  by (simp add: MAX_EVENTS_def unat_word_ariths)

lemma Start_effect:
  assumes "unat eid < MAX_EVENTS"
  shows "\<exists>w1. AppEvent_Start P eid sgl w = Inr w1 \<and> m_numEvents w1 = m_numEvents w
     \<and> m_initialized w1 = m_initialized w
     \<and> (\<forall>j. j \<noteq> unat eid \<longrightarrow> m_events w1 j = m_events w j)
     \<and> m_events w1 (unat eid) = (m_events w (unat eid))\<lparr>triggered := False, ev_single := sgl,
          diagnostics := (diagnostics (m_events w (unat eid)))\<lparr>startTime := TimerGetCurrentTime P (plat w)\<rparr>,
          timer := timer (m_events w1 (unat eid))\<rparr>"
  using assms by (auto simp: AppEvent_Start_def StartEvent_def Let_def split: prod.splits)

lemma Stop_effect:
  assumes "unat eid < MAX_EVENTS"
  shows "\<exists>w1. AppEvent_Stop P eid w = Inr w1 \<and> m_numEvents w1 = m_numEvents w
     \<and> m_initialized w1 = m_initialized w
     \<and> (\<forall>j. j \<noteq> unat eid \<longrightarrow> m_events w1 j = m_events w j)
     \<and> m_events w1 (unat eid) = (m_events w (unat eid))\<lparr>timer := timer (m_events w1 (unat eid))\<rparr>
     \<and> (irqMode (m_events w (unat eid)) = NO_IRQ \<longrightarrow>
          timer (m_events w1 (unat eid)) = TimerStop P (timer (m_events w (unat eid))))"
  using assms by (auto simp: AppEvent_Stop_def Let_def)

lemma OnEvent_main_any:
  assumes "ev_context (m_events w i) = APP_EVENT_CONTEXT_MAIN"
  shows "\<exists>w1 t. OnEvent P run i (w, tr) = (w1, tr) \<and> m_numEvents w1 = m_numEvents w
     \<and> m_events w1 i = (m_events w i)\<lparr>triggered := True,
          diagnostics := (diagnostics (m_events w i))\<lparr>triggerCount :=
             triggerCount (diagnostics (m_events w i)) + 1\<rparr>,
          timer := t\<rparr>"
proof (cases "ev_single (m_events w i)")
  case True
  with assms show ?thesis
    by (intro exI [of _ "fst (OnEvent P run i (w, tr))"] exI [of _ "timer (m_events w i)"])
       (simp add: OnEvent_def DoTrigger_def Let_def)
next
  case False
  with assms show ?thesis
    by (intro exI [of _ "fst (OnEvent P run i (w, tr))"]
          exI [of _ "timer (m_events (fst (OnEvent P run i (w, tr))) i)"])
       (simp add: OnEvent_def DoTrigger_def StartEvent_def Let_def split: prod.splits)
qed

lemma OnEvent_main_continuous:
  assumes "ev_context (m_events w i) = APP_EVENT_CONTEXT_MAIN"
    and "irqMode (m_events w i) = NO_IRQ" and "\<not> ev_single (m_events w i)"
    and "timeoutRandomizer (m_events w i) = 0"
  shows "OnEvent P run i (w, tr) =
     (w\<lparr>m_events := (m_events w)(i := (m_events w i)\<lparr>triggered := True,
          diagnostics := (diagnostics (m_events w i))\<lparr>triggerCount :=
             triggerCount (diagnostics (m_events w i)) + 1\<rparr>,
          timer := TimerStartWithParam P (timer (m_events w i))\<rparr>)\<rparr>, tr)"
  using assms by (simp add: OnEvent_def DoTrigger_def StartEvent_def Let_def)

lemma OnEvent_fires_main:
  assumes "ev_context (m_events w i) = APP_EVENT_CONTEXT_MAIN"
  shows "\<exists>wN t. (OnEvent P run i ^^ N) (w, tr) = (wN, tr) \<and> m_numEvents wN = m_numEvents w
     \<and> m_events wN i = (m_events w i)\<lparr>triggered := (triggered (m_events w i) \<or> 0 < N),
          diagnostics := (diagnostics (m_events w i))\<lparr>triggerCount :=
             triggerCount (diagnostics (m_events w i)) + of_nat N\<rparr>,
          timer := t\<rparr>"
proof (induction N)
  case 0
  show ?case
    by (intro exI [of _ w] exI [of _ "timer (m_events w i)"]) simp
next
  case (Suc N)
  let ?e = "m_events w i"
  from Suc obtain wN t where f: "(OnEvent P run i ^^ N) (w, tr) = (wN, tr)"
    and n: "m_numEvents wN = m_numEvents w"
    and e: "m_events wN i = ?e\<lparr>triggered := (triggered ?e \<or> 0 < N),
          diagnostics := (diagnostics ?e)\<lparr>triggerCount := triggerCount (diagnostics ?e) + of_nat N\<rparr>,
          timer := t\<rparr>"
    by blast
  have c: "ev_context (m_events wN i) = APP_EVENT_CONTEXT_MAIN"
    by (simp add: e assms)
  from OnEvent_main_any [OF c, where P = P and run = run and tr = tr] obtain w1 t1 where
    s: "OnEvent P run i (wN, tr) = (w1, tr)" and n1: "m_numEvents w1 = m_numEvents wN"
    and e1: "m_events w1 i = (m_events wN i)\<lparr>triggered := True,
          diagnostics := (diagnostics (m_events wN i))\<lparr>triggerCount :=
             triggerCount (diagnostics (m_events wN i)) + 1\<rparr>,
          timer := t1\<rparr>"
    by blast
  have e2: "m_events w1 i = ?e\<lparr>triggered := (triggered ?e \<or> 0 < Suc N),
          diagnostics := (diagnostics ?e)\<lparr>triggerCount := triggerCount (diagnostics ?e) + of_nat (Suc N)\<rparr>,
          timer := t1\<rparr>"
    by (simp add: e1 e add.assoc add.commute)
  from f s n n1 e2 show ?case
    by (intro exI [of _ w1] exI [of _ t1]) simp
qed

lemma DoTrigger_fires_main:
  assumes "ev_context (m_events w i) = APP_EVENT_CONTEXT_MAIN"
  shows "(DoTrigger run i ^^ N) (w, tr) =
     (if N = 0 then w
      else w\<lparr>m_events := (m_events w)(i := (m_events w i)\<lparr>triggered := True,
             diagnostics := (diagnostics (m_events w i))\<lparr>triggerCount :=
                triggerCount (diagnostics (m_events w i)) + of_nat N\<rparr>\<rparr>)\<rparr>, tr)"
proof (induction N)
  case 0
  show ?case by simp
next
  case (Suc N)
  show ?case
  proof (cases "N = 0")
    case True
    with assms show ?thesis by (simp add: DoTrigger_def Let_def)
  next
    case False
    with Suc assms show ?thesis
      by (simp add: DoTrigger_def Let_def add.assoc add.commute)
  qed
qed

text \<open>
  \<open>AppEvent_Trigger\<close> compares the id with the id field of each registered descriptor.
  An id no descriptor carries triggers nothing; the id of a registered event runs the
  trigger path on that descriptor and on no other.
\<close>

lemma Trigger_loop_nomatch_from:
  "\<forall>j. unat i \<le> j \<and> j < unat (m_numEvents (fst s)) \<longrightarrow> ev_id (m_events (fst s) j) \<noteq> eid \<Longrightarrow>
   unat (m_numEvents (fst s)) \<le> MAX_EVENTS \<Longrightarrow> Trigger_loop run eid i s = Inr s"
proof (induction run eid i s rule: Trigger_loop.induct)
  case (1 run eid i s)
  show ?case
  proof (cases "i < m_numEvents (fst s)")
    case True
    then have lt: "unat i < unat (m_numEvents (fst s))" by (simp add: word_less_nat_alt)
    with "1.prems" have inb: "unat i < MAX_EVENTS" and ne: "ev_id (m_events (fst s) (unat i)) \<noteq> eid"
      by simp_all
    have "\<forall>j. unat (i + 1) \<le> j \<and> j < unat (m_numEvents (fst s)) \<longrightarrow> ev_id (m_events (fst s) j) \<noteq> eid"
      using "1.prems"(1) inb by (simp add: unat_suc_u8)
    with "1.IH" [OF True inb] ne "1.prems"(2) have "Trigger_loop run eid (i + 1) s = Inr s" by simp
    with True inb ne show ?thesis by (simp add: Trigger_loop.simps [of run eid i s])
  next
    case False
    then show ?thesis by (simp add: Trigger_loop.simps [of run eid i s])
  qed
qed

lemma Trigger_loop_registered:
  assumes cb: "\<forall>c v. same_registry v (run c v)"
  shows "registry_inv (fst s) \<Longrightarrow> unat eid < unat (m_numEvents (fst s)) \<Longrightarrow> unat i \<le> unat eid
     \<Longrightarrow> Trigger_loop run eid i s = Inr (DoTrigger run (unat eid) s)"
  using cb
proof (induction run eid i s rule: Trigger_loop.induct)
  case (1 run eid i s)
  from "1.prems"(1) have n: "unat (m_numEvents (fst s)) \<le> MAX_EVENTS" by (simp add: registry_inv_alt)
  from "1.prems"(2,3) have c1: "i < m_numEvents (fst s)" by (simp add: word_less_nat_alt)
  with n have inb: "unat i < MAX_EVENTS" by (simp add: word_less_nat_alt)
  show ?case
  proof (cases "unat i = unat eid")
    case True
    then have ie: "i = eid" by (simp add: word_unat_eq_iff)
    from "1.prems"(1,2) have "ev_id (m_events (fst s) (unat eid)) = of_nat (unat eid)"
      by (simp add: registry_inv_alt slot_inv_def)
    then have hit: "ev_id (m_events (fst s) (unat i)) = eid" using ie by simp
    let ?s1 = "DoTrigger run (unat eid) s"
    have sr: "same_registry (fst s) (fst ?s1)" by (rule DoTrigger_same [OF "1.prems"(4)])
    then have inv1: "registry_inv (fst ?s1)" using "1.prems"(1) by (rule registry_inv_same)
    from sr have n1: "m_numEvents (fst ?s1) = m_numEvents (fst s)" by (simp add: same_registry_def)
    have "\<forall>j. unat (i + 1) \<le> j \<and> j < unat (m_numEvents (fst ?s1)) \<longrightarrow>
               ev_id (m_events (fst ?s1) j) \<noteq> eid"
      using registered_id_neq [OF inv1] inb ie by (simp add: unat_suc_u8)
    from Trigger_loop_nomatch_from [OF this] n n1
    have "Trigger_loop run eid (i + 1) ?s1 = Inr ?s1" by simp
    with c1 inb hit ie show ?thesis by (simp add: Trigger_loop.simps [of run eid eid s])
  next
    case False
    with "1.prems"(3) have lt: "unat i < unat eid" by simp
    from registered_id_neq [OF "1.prems"(1), of "unat i" eid] False lt "1.prems"(2)
    have ne: "ev_id (m_events (fst s) (unat i)) \<noteq> eid" by simp
    have le: "unat (i + 1) \<le> unat eid" using lt inb by (simp add: unat_suc_u8)
    from "1.IH" [OF c1 inb _ _ le "1.prems"(4)] ne "1.prems"(1,2)
    have "Trigger_loop run eid (i + 1) s = Inr (DoTrigger run (unat eid) s)" by simp
    with c1 inb ne show ?thesis by (simp add: Trigger_loop.simps [of run eid i s])
  qed
qed

lemma Trigger_registered:
  assumes "\<forall>c v. same_registry v (run c v)" and "registered w (unat eid)"
  shows "AppEvent_Trigger run eid (w, tr) = Inr (DoTrigger run (unat eid) (w, tr))"
  unfolding AppEvent_Trigger_def
  using assms(2) by (intro Trigger_loop_registered [OF assms(1)]) (simp_all add: registered_def)

subsection \<open>The sweep seen from one index\<close>

text \<open>
  The sweep visits the indices below the count in order. Seen from the index \<open>i\<close>, it
  runs the loop body on the indices before \<open>i\<close>, then on \<open>i\<close>, then on those after
  \<open>i\<close>; a property \<open>Q\<close> of descriptor \<open>i\<close> that all callbacks keep holds until the body
  runs on \<open>i\<close>, and the property \<open>R\<close> established there holds to the end.
\<close>

lemma body_numEvents:
  assumes "\<forall>c w. m_numEvents (run c w) = m_numEvents w"
  shows "m_numEvents (fst (ProcessMainEvents_body P run j s)) = m_numEvents (fst s)"
  using assms by (simp add: ProcessMainEvents_body_def Let_def split: option.splits)

lemma body_other:
  assumes "j \<noteq> i" and "Q (m_events (fst s) i)"
    and "\<forall>c w. Q (m_events w i) \<longrightarrow> Q (m_events (run c w) i)"
  shows "Q (m_events (fst (ProcessMainEvents_body P run j s)) i)
         \<and> count_list (snd (ProcessMainEvents_body P run j s)) i = count_list (snd s) i"
  using assms by (simp add: ProcessMainEvents_body_def Let_def split: option.splits)

lemma loop_past:
  assumes cb: "\<forall>c w. Q (m_events w i) \<longrightarrow> Q (m_events (run c w) i)"
  shows "i < unat eid \<Longrightarrow> Q (m_events (fst s) i) \<Longrightarrow> ProcessMainEvents_loop P run eid s = Inr s'
     \<Longrightarrow> Q (m_events (fst s') i) \<and> count_list (snd s') i = count_list (snd s) i"
  using cb
proof (induction P run eid s rule: ProcessMainEvents_loop.induct)
  case (1 P run eid s)
  show ?case
  proof (cases "eid < m_numEvents (fst s) \<and> unat eid < MAX_EVENTS")
    case True
    let ?s1 = "ProcessMainEvents_body P run (unat eid) s"
    from True have ne: "unat eid \<noteq> i" and lt: "i < unat (eid + 1)"
      using "1.prems"(1) by (simp_all add: unat_suc_u8)
    have b: "Q (m_events (fst ?s1) i) \<and> count_list (snd ?s1) i = count_list (snd s) i"
      by (rule body_other [where Q = Q, OF ne "1.prems"(2) "1.prems"(4)])
    from True "1.prems"(3) have r: "ProcessMainEvents_loop P run (eid + 1) ?s1 = Inr s'"
      by (simp add: ProcessMainEvents_loop.simps [of P run eid s])
    from "1.IH" [OF _ _ lt _ r "1.prems"(4)] True b show ?thesis by simp
  next
    case False
    with "1.prems" show ?thesis
      by (auto simp: ProcessMainEvents_loop.simps [of P run eid s] split: if_splits)
  qed
qed

lemma loop_total:
  assumes cb: "\<forall>c w. m_numEvents (run c w) = m_numEvents w"
  shows "unat (m_numEvents (fst s)) \<le> MAX_EVENTS \<Longrightarrow> \<exists>s'. ProcessMainEvents_loop P run eid s = Inr s'"
  using cb
proof (induction P run eid s rule: ProcessMainEvents_loop.induct)
  case (1 P run eid s)
  show ?case
  proof (cases "eid < m_numEvents (fst s)")
    case True
    then have inb: "unat eid < MAX_EVENTS"
      using "1.prems"(1) by (simp add: word_less_nat_alt)
    let ?s1 = "ProcessMainEvents_body P run (unat eid) s"
    have "m_numEvents (fst ?s1) = m_numEvents (fst s)"
      by (rule body_numEvents [OF "1.prems"(2)])
    with "1.IH" [OF True inb _ "1.prems"(2)] "1.prems"(1) True inb show ?thesis
      by (simp add: ProcessMainEvents_loop.simps [of P run eid s])
  next
    case False
    then show ?thesis by (simp add: ProcessMainEvents_loop.simps [of P run eid s])
  qed
qed

lemma loop_upto:
  assumes cbn: "\<forall>c w. m_numEvents (run c w) = m_numEvents w"
    and cb: "\<forall>c w. Q (m_events w i) \<longrightarrow> Q (m_events (run c w) i)"
  shows "unat eid \<le> i \<Longrightarrow> i < unat (m_numEvents (fst s)) \<Longrightarrow> i < MAX_EVENTS
     \<Longrightarrow> Q (m_events (fst s) i)
     \<Longrightarrow> \<exists>s1. ProcessMainEvents_loop P run eid s = ProcessMainEvents_loop P run (of_nat i) s1
            \<and> Q (m_events (fst s1) i) \<and> count_list (snd s1) i = count_list (snd s) i
            \<and> m_numEvents (fst s1) = m_numEvents (fst s)"
  using cbn cb
proof (induction P run eid s rule: ProcessMainEvents_loop.induct)
  case (1 P run eid s)
  show ?case
  proof (cases "unat eid = i")
    case True
    then have "of_nat i = eid" by auto
    with "1.prems"(4) show ?thesis by (intro exI [of _ s]) simp
  next
    case False
    with "1.prems"(1) have lt: "unat eid < i" by simp
    with "1.prems"(2,3) have c1: "eid < m_numEvents (fst s)" and inb: "unat eid < MAX_EVENTS"
      by (simp_all add: word_less_nat_alt)
    let ?s1 = "ProcessMainEvents_body P run (unat eid) s"
    have n1: "m_numEvents (fst ?s1) = m_numEvents (fst s)"
      by (rule body_numEvents [OF "1.prems"(5)])
    have b: "Q (m_events (fst ?s1) i) \<and> count_list (snd ?s1) i = count_list (snd s) i"
      by (rule body_other [where Q = Q, OF False "1.prems"(4) "1.prems"(6)])
    have le: "unat (eid + 1) \<le> i" using lt inb by (simp add: unat_suc_u8)
    from "1.IH" [OF c1 inb le _ "1.prems"(3) _ "1.prems"(5) "1.prems"(6)] n1 b "1.prems"(2)
    obtain s1 where "ProcessMainEvents_loop P run (eid + 1) ?s1 = ProcessMainEvents_loop P run (of_nat i) s1"
      and "Q (m_events (fst s1) i)" and "count_list (snd s1) i = count_list (snd s) i"
      and "m_numEvents (fst s1) = m_numEvents (fst s)"
      by auto
    with c1 inb show ?thesis
      by (intro exI [of _ s1]) (simp add: ProcessMainEvents_loop.simps [of P run eid s])
  qed
qed

lemma loop_numEvents:
  assumes cb: "\<forall>c w. m_numEvents (run c w) = m_numEvents w"
  shows "ProcessMainEvents_loop P run eid s = Inr s' \<Longrightarrow> m_numEvents (fst s') = m_numEvents (fst s)"
  using cb
proof (induction P run eid s rule: ProcessMainEvents_loop.induct)
  case (1 P run eid s)
  show ?case
  proof (cases "eid < m_numEvents (fst s) \<and> unat eid < MAX_EVENTS")
    case True
    let ?s1 = "ProcessMainEvents_body P run (unat eid) s"
    from True "1.prems"(1) have r: "ProcessMainEvents_loop P run (eid + 1) ?s1 = Inr s'"
      by (simp add: ProcessMainEvents_loop.simps [of P run eid s])
    from "1.IH" [OF _ _ r "1.prems"(2)] True body_numEvents [OF "1.prems"(2), of P "unat eid" s]
    show ?thesis by simp
  next
    case False
    with "1.prems" show ?thesis
      by (auto simp: ProcessMainEvents_loop.simps [of P run eid s] split: if_splits)
  qed
qed

lemma sweep_visit:
  assumes cbn: "\<forall>c w. m_numEvents (run c w) = m_numEvents w"
    and cbQ: "\<forall>c w. Q (m_events w i) \<longrightarrow> Q (m_events (run c w) i)"
    and cbR: "\<forall>c w. R (m_events w i) \<longrightarrow> R (m_events (run c w) i)"
    and i: "i < unat (m_numEvents (fst s))" and n: "unat (m_numEvents (fst s)) \<le> MAX_EVENTS"
    and Q: "Q (m_events (fst s) i)"
    and step: "\<forall>s1. Q (m_events (fst s1) i) \<longrightarrow>
                 R (m_events (fst (ProcessMainEvents_body P run i s1)) i)
                 \<and> count_list (snd (ProcessMainEvents_body P run i s1)) i = count_list (snd s1) i + k"
  shows "\<exists>s'. AppEvent_ProcessMainEvents P run s = Inr s' \<and> R (m_events (fst s') i)
              \<and> count_list (snd s') i = count_list (snd s) i + k"
proof -
  from i n have inb: "i < MAX_EVENTS" by simp
  have z: "unat (0 :: u8) \<le> i" by simp
  from loop_upto [where Q = Q, OF cbn cbQ z i inb Q]
  obtain s1 where e1: "ProcessMainEvents_loop P run 0 s = ProcessMainEvents_loop P run (of_nat i) s1"
    and q1: "Q (m_events (fst s1) i)" and c1: "count_list (snd s1) i = count_list (snd s) i"
    and n1: "m_numEvents (fst s1) = m_numEvents (fst s)"
    by blast
  let ?e = "of_nat i :: u8"
  let ?s2 = "ProcessMainEvents_body P run i s1"
  have ui: "unat ?e = i" using inb by (simp add: MAX_EVENTS_def unat_of_nat)
  have lt: "?e < m_numEvents (fst s1)" using i n1 ui by (simp add: word_less_nat_alt)
  have e2: "ProcessMainEvents_loop P run ?e s1 = ProcessMainEvents_loop P run (?e + 1) ?s2"
    using lt inb ui by (simp add: ProcessMainEvents_loop.simps [of P run ?e s1])
  have n2: "unat (m_numEvents (fst ?s2)) \<le> MAX_EVENTS"
    using body_numEvents [OF cbn, of P i s1] n1 n by simp
  from loop_total [OF cbn n2] obtain s' where e3: "ProcessMainEvents_loop P run (?e + 1) ?s2 = Inr s'"
    by blast
  from step [rule_format, OF q1] have r2: "R (m_events (fst ?s2) i)"
    and c2: "count_list (snd ?s2) i = count_list (snd s1) i + k" by simp_all
  have past: "i < unat (?e + 1)" using ui inb by (simp add: unat_suc_u8)
  from loop_past [where Q = R, OF cbR past r2 e3]
  have "R (m_events (fst s') i)" and "count_list (snd s') i = count_list (snd ?s2) i" by auto
  with e1 e2 e3 c1 c2 show ?thesis
    by (intro exI [of _ s']) (simp add: AppEvent_ProcessMainEvents_def)
qed

lemma sweeps_invariant:
  assumes cbn: "\<forall>c w. m_numEvents (run c w) = m_numEvents w"
    and cbQ: "\<forall>c w. Q (m_events w i) \<longrightarrow> Q (m_events (run c w) i)"
    and step: "\<forall>s1. Q (m_events (fst s1) i) \<longrightarrow>
                 Q (m_events (fst (ProcessMainEvents_body P run i s1)) i)
                 \<and> count_list (snd (ProcessMainEvents_body P run i s1)) i = count_list (snd s1) i + 0"
  shows "i < unat (m_numEvents (fst s)) \<Longrightarrow> unat (m_numEvents (fst s)) \<le> MAX_EVENTS
     \<Longrightarrow> Q (m_events (fst s) i)
     \<Longrightarrow> \<exists>s'. sweeps P run k s = Inr s' \<and> Q (m_events (fst s') i)
              \<and> count_list (snd s') i = count_list (snd s) i"
proof (induction k arbitrary: s)
  case 0
  then show ?case by simp
next
  case (Suc k)
  from sweep_visit [where Q = Q and R = Q and k = 0 and P = P, OF cbn cbQ cbQ Suc.prems step]
  obtain s1 where s1: "AppEvent_ProcessMainEvents P run s = Inr s1" and q1: "Q (m_events (fst s1) i)"
    and c1: "count_list (snd s1) i = count_list (snd s) i"
    by auto
  from s1 have n1: "m_numEvents (fst s1) = m_numEvents (fst s)"
    unfolding AppEvent_ProcessMainEvents_def by (rule loop_numEvents [OF cbn])
  from Suc.IH [of s1] Suc.prems n1 q1 obtain s' where "sweeps P run k s1 = Inr s'"
    and "Q (m_events (fst s') i)" and "count_list (snd s') i = count_list (snd s1) i"
    by auto
  with s1 c1 show ?case by simp
qed

lemma sweeps_numEvents:
  assumes cb: "\<forall>c w. m_numEvents (run c w) = m_numEvents w"
  shows "sweeps P run k s = Inr s' \<Longrightarrow> m_numEvents (fst s') = m_numEvents (fst s)"
proof (induction k arbitrary: s)
  case 0
  then show ?case by simp
next
  case (Suc k)
  from Suc.prems obtain s1 where s1: "AppEvent_ProcessMainEvents P run s = Inr s1"
    and r: "sweeps P run k s1 = Inr s'"
    by (auto split: sum.splits)
  from s1 have "m_numEvents (fst s1) = m_numEvents (fst s)"
    unfolding AppEvent_ProcessMainEvents_def by (rule loop_numEvents [OF cb])
  with Suc.IH [OF r] show ?case by simp
qed

text \<open>
  The three outcomes of a sweep for a descriptor the callbacks leave alone: skipped
  (flag not set, or paused), flag cleared without dispatch (not admitted), dispatched.
\<close>

lemma leaves_alone_idle: "leaves_alone idle_run i"
  by (simp add: leaves_alone_def idle_run_def)

lemma sweep_skip:
  assumes la: "leaves_alone run i"
    and i: "i < unat (m_numEvents w)" and n: "unat (m_numEvents w) \<le> MAX_EVENTS"
    and c: "\<not> triggered (m_events w i) \<or> paused (m_events w i)"
  shows "\<exists>s'. AppEvent_ProcessMainEvents P run (w, tr) = Inr s' \<and> m_events (fst s') i = m_events w i
              \<and> count_list (snd s') i = count_list tr i"
proof -
  let ?Q = "\<lambda>x. x = m_events w i"
  have cbn: "\<forall>c v. m_numEvents (run c v) = m_numEvents v" using la by (simp add: leaves_alone_def)
  have cbQ: "\<forall>c v. ?Q (m_events v i) \<longrightarrow> ?Q (m_events (run c v) i)"
    using la by (simp add: leaves_alone_def)
  have step: "\<forall>s1. ?Q (m_events (fst s1) i) \<longrightarrow>
                 ?Q (m_events (fst (ProcessMainEvents_body P run i s1)) i)
                 \<and> count_list (snd (ProcessMainEvents_body P run i s1)) i = count_list (snd s1) i + 0"
    using c by (auto simp: ProcessMainEvents_body_def Let_def)
  from sweep_visit [where Q = ?Q and R = ?Q and s = "(w, tr)" and k = 0 and P = P, OF cbn cbQ cbQ _ _ _ step]
    i n show ?thesis by simp
qed

lemma sweep_stale:
  assumes la: "leaves_alone run i"
    and i: "i < unat (m_numEvents w)" and n: "unat (m_numEvents w) \<le> MAX_EVENTS"
    and c: "triggered (m_events w i)" "\<not> paused (m_events w i)" "\<not> admitted P (m_events w i)"
  shows "\<exists>s'. AppEvent_ProcessMainEvents P run (w, tr) = Inr s'
              \<and> m_events (fst s') i = (m_events w i)\<lparr>triggered := False\<rparr>
              \<and> count_list (snd s') i = count_list tr i"
proof -
  let ?Q = "\<lambda>x. x = m_events w i"
  let ?R = "\<lambda>x. x = (m_events w i)\<lparr>triggered := False\<rparr>"
  have cbn: "\<forall>c v. m_numEvents (run c v) = m_numEvents v" using la by (simp add: leaves_alone_def)
  have cbQ: "\<forall>c v. ?Q (m_events v i) \<longrightarrow> ?Q (m_events (run c v) i)"
    using la by (simp add: leaves_alone_def)
  have cbR: "\<forall>c v. ?R (m_events v i) \<longrightarrow> ?R (m_events (run c v) i)"
    using la by (simp add: leaves_alone_def)
  have step: "\<forall>s1. ?Q (m_events (fst s1) i) \<longrightarrow>
                 ?R (m_events (fst (ProcessMainEvents_body P run i s1)) i)
                 \<and> count_list (snd (ProcessMainEvents_body P run i s1)) i = count_list (snd s1) i + 0"
    using c by (auto simp: ProcessMainEvents_body_def Let_def admitted_def)
  from sweep_visit [where Q = ?Q and R = ?R and s = "(w, tr)" and k = 0 and P = P, OF cbn cbQ cbR _ _ _ step]
    i n show ?thesis by simp
qed

lemma sweep_dispatch:
  assumes la: "leaves_alone run i"
    and i: "i < unat (m_numEvents w)" and n: "unat (m_numEvents w) \<le> MAX_EVENTS"
    and c: "triggered (m_events w i)" "\<not> paused (m_events w i)" "admitted P (m_events w i)"
      "callback (m_events w i) \<noteq> None"
  shows "\<exists>s'. AppEvent_ProcessMainEvents P run (w, tr) = Inr s'
              \<and> m_events (fst s') i = (m_events w i)\<lparr>triggered := False,
                    diagnostics := (diagnostics (m_events w i))\<lparr>processCount :=
                       processCount (diagnostics (m_events w i)) + 1\<rparr>\<rparr>
              \<and> count_list (snd s') i = count_list tr i + 1"
proof -
  let ?Q = "\<lambda>x. x = m_events w i"
  let ?R = "\<lambda>x. x = (m_events w i)\<lparr>triggered := False,
                    diagnostics := (diagnostics (m_events w i))\<lparr>processCount :=
                       processCount (diagnostics (m_events w i)) + 1\<rparr>\<rparr>"
  have cbn: "\<forall>c v. m_numEvents (run c v) = m_numEvents v" using la by (simp add: leaves_alone_def)
  have cbQ: "\<forall>c v. ?Q (m_events v i) \<longrightarrow> ?Q (m_events (run c v) i)"
    using la by (simp add: leaves_alone_def)
  have cbR: "\<forall>c v. ?R (m_events v i) \<longrightarrow> ?R (m_events (run c v) i)"
    using la by (simp add: leaves_alone_def)
  have step: "\<forall>s1. ?Q (m_events (fst s1) i) \<longrightarrow>
                 ?R (m_events (fst (ProcessMainEvents_body P run i s1)) i)
                 \<and> count_list (snd (ProcessMainEvents_body P run i s1)) i = count_list (snd s1) i + 1"
    using c la by (auto simp: ProcessMainEvents_body_def Let_def admitted_def leaves_alone_def)
  from sweep_visit [where Q = ?Q and R = ?R and s = "(w, tr)" and k = 1 and P = P, OF cbn cbQ cbR _ _ _ step]
    i n show ?thesis by simp
qed

subsection \<open>The scenarios\<close>

text \<open>
  The states of the scenarios, computed, and the events registered in them.
\<close>

lemmas api_defs = AppEvent_Init_def
      AppEvent_RegisterEvent_def AppEvent_RegisterTimer_def AppEvent_RegisterTimerWithRandomizer_def
      AppEvent_RegisterInterrupt_def CreateEvent_def MAX_EVENTS_def Let_def
      AppEvent_Start_def AppEvent_Stop_def AppEvent_Pause_def AppEvent_Resume_def
      AppEvent_SetTimeout_def AppEvent_GetTimeout_def AppEvent_TimeRemaining_def AppEvent_Running_def
      StartEvent_def DoTrigger_def OnEvent_def ProcessMainEvents_body_def admitted_def

lemma three_regs_run:
  "register_all sim_platform three_regs sim_boot =
     Inr ([0, 1, 2], snd (projr (register_all sim_platform three_regs sim_boot)))"
  by (simp add: three_regs_def sim_boot_def boot_def AppEvent_Init_def
      AppEvent_RegisterEvent_def AppEvent_RegisterTimer_def AppEvent_RegisterTimerWithRandomizer_def
      AppEvent_RegisterInterrupt_def CreateEvent_def MAX_EVENTS_def Let_def)

lemma sim_world_fields:
  "m_numEvents sim_world = 3" "m_initialized sim_world" "plat sim_world = 0"
  "m_events sim_world 0 = (zero_event \<lparr>IsStarted = False, ReloadValue = 0\<rparr>)
      \<lparr>ev_name := Some ''G'', callback := Some 1, diagnostics := \<lparr>debugEnable = True, startTime = 0, triggerCount = 0, processCount = 0\<rparr>\<rparr>"
  "m_events sim_world (Suc 0) = (zero_event \<lparr>IsStarted = False, ReloadValue = 100\<rparr>)
      \<lparr>ev_name := Some ''T'', callback := Some 2, ev_id := 1, ev_type := EVENT_TYPE_TIMER, timeout := 100,
       diagnostics := \<lparr>debugEnable = True, startTime = 0, triggerCount = 0, processCount = 0\<rparr>\<rparr>"
  "m_events sim_world 2 = (zero_event \<lparr>IsStarted = False, ReloadValue = 0\<rparr>)
      \<lparr>ev_context := APP_EVENT_CONTEXT_IMMEDIATE, callback := Some 3, ev_id := 2, ev_type := EVENT_TYPE_INTERRUPT,
       irqGpio := Some 7, irqMode := IRQ_RISING_EDGE,
       diagnostics := \<lparr>debugEnable = True, startTime = 0, triggerCount = 0, processCount = 0\<rparr>\<rparr>"
  "3 \<le> j \<Longrightarrow> m_events sim_world j = zero_event \<lparr>IsStarted = False, ReloadValue = 0\<rparr>"
  by (simp_all add: sim_world_def three_regs_def sim_boot_def boot_def zero_event_def sim_platform_def api_defs)

lemmas sim_eval = sim_world_fields zero_event_def sim_platform_def api_defs idle_run_def
  numeral_3_eq_3

lemma registry_inv_sim_world: "registry_inv sim_world"
proof -
  have "registry_inv sim_boot"
    unfolding sim_boot_def by (intro registry_inv_Init registry_inv_boot)
  from registry_inv_register_all [OF this three_regs_run] show ?thesis
    by (simp add: sim_world_def)
qed

lemma registered_sim_world:
  "registered sim_world 0" "registered sim_world (Suc 0)" "registered sim_world 2"
  by (simp_all add: registered_def registry_inv_sim_world sim_world_fields)

lemma sim_pending_run:
  "AppEvent_Trigger idle_run 0 (sim_world, []) = Inr (sim_pending, [])"
  "triggered (m_events sim_pending 0)"
  by (simp_all add: sim_pending_def AppEvent_Trigger_def Trigger_loop.simps sim_world_fields
       DoTrigger_def Let_def MAX_EVENTS_def zero_event_def)


lemma registered_sim_pending: "registered sim_pending 0"
  using registered_same [OF Trigger_same [OF idle_run_same sim_pending_run(1)]] registered_sim_world(1)
  by simp

lemma sim_armed_run: "AppEvent_Start sim_platform 1 False sim_world = Inr sim_armed"
  by (simp add: sim_armed_def AppEvent_Start_def MAX_EVENTS_def Let_def)

lemma sim_armed_fields:
  "m_numEvents sim_armed = 3"
  "m_events sim_armed (Suc 0) = (m_events sim_world (Suc 0))\<lparr>timer := \<lparr>IsStarted = True, ReloadValue = 100\<rparr>\<rparr>"
  by (simp_all add: sim_armed_def sim_eval)

lemma sim_fired_fields:
  "m_numEvents sim_fired = 3"
  "m_events sim_fired (Suc 0) = (m_events sim_armed (Suc 0))\<lparr>triggered := True,
      diagnostics := \<lparr>debugEnable = True, startTime = 0, triggerCount = 3, processCount = 0\<rparr>\<rparr>"
  by (simp_all add: sim_fired_def numeral_3_eq_3 OnEvent_main_continuous sim_armed_fields
        sim_world_fields zero_event_def sim_platform_def)

lemma sim_paused_run: "AppEvent_Pause 1 sim_armed = Inr (projr (AppEvent_Pause 1 sim_armed))"
  by (simp add: AppEvent_Pause_def MAX_EVENTS_def Let_def sim_armed_fields sim_world_fields zero_event_def)

lemma sim_paused_fired_fields:
  "m_numEvents sim_paused_fired = 3"
  "m_events sim_paused_fired (Suc 0) = (m_events sim_armed (Suc 0))\<lparr>triggered := True, paused := True,
      diagnostics := \<lparr>debugEnable = True, startTime = 0, triggerCount = 3, processCount = 0\<rparr>\<rparr>"
  by (simp_all add: sim_paused_fired_def numeral_3_eq_3 OnEvent_main_continuous sim_armed_fields
        sim_world_fields zero_event_def sim_platform_def AppEvent_Pause_def MAX_EVENTS_def Let_def)

lemma registered_sim_armed: "registered sim_armed (Suc 0)"
  using registered_same [OF Start_same [OF sim_armed_run] registered_sim_world(2)] .

lemma registered_sim_fired: "registered sim_fired (Suc 0)"
  using registered_same [OF OnEvent_funpow_same [OF idle_run_same, where s = "(sim_armed, [])" and P = sim_platform and i = 1 and n = 3]]
    registered_sim_armed
  by (simp add: sim_fired_def)

lemma registered_sim_paused_fired: "registered sim_paused_fired (Suc 0)"
  using registered_same [OF OnEvent_funpow_same [OF idle_run_same,
      where s = "(projr (AppEvent_Pause 1 sim_armed), [])" and P = sim_platform and i = 1 and n = 3]]
    registered_same [OF Pause_same [OF sim_paused_run] registered_sim_armed]
  by (simp add: sim_paused_fired_def)



lemma sim_platform_stop: "\<forall>t. \<not> TimerRunning sim_platform (TimerStop sim_platform t)"
  by (simp add: sim_platform_def)

section \<open>The claims\<close>

subsection \<open>C1: coalescing of repeated expiries\<close>

text \<open>
  Claim C1, amended. Let \<open>i\<close> be a registered continuous timer event of the Main
  context. After \<open>N \<ge> 1\<close> expiries of its timer (\<open>OnEvent\<close>: the trigger path, then the
  re-arm) with no sweep in between, \<open>triggered\<close> is set, \<open>triggerCount\<close> has grown by \<open>N\<close>
  (the counter is a \<^verbatim>\<open>uint16_t\<close>, so the sum is taken in 16 bits), \<open>processCount\<close> is
  unchanged and no callback was invoked. If then the event is not paused, its timer
  still runs and the callbacks leave its descriptor alone, one sweep increments
  \<open>processCount\<close> by 1, invokes the event's callback exactly once and leaves
  \<open>triggered\<close> cleared. The last conjunct is the trigger path alone, run \<open>N\<close> times: it
  sets the flag and adds \<open>N\<close> to \<open>triggerCount\<close>, and writes nothing else.
\<close>

theorem coalescing_law:
  assumes "registered w i"
    and "ev_context (m_events w i) = APP_EVENT_CONTEXT_MAIN"
    and "ev_type (m_events w i) = EVENT_TYPE_TIMER"
    and "\<not> ev_single (m_events w i)"
    and "1 \<le> N"
  shows "\<exists>wN. (OnEvent P run i ^^ N) (w, tr) = (wN, tr)
          \<and> triggered (m_events wN i)
          \<and> triggerCount (diagnostics (m_events wN i))
              = triggerCount (diagnostics (m_events w i)) + of_nat N
          \<and> processCount (diagnostics (m_events wN i)) = processCount (diagnostics (m_events w i))
          \<and> (\<not> paused (m_events wN i) \<and> TimerRunning P (timer (m_events wN i))
               \<and> leaves_alone run i \<longrightarrow>
               (\<exists>s'. AppEvent_ProcessMainEvents P run (wN, tr) = Inr s'
                  \<and> processCount (diagnostics (m_events (fst s') i))
                      = processCount (diagnostics (m_events wN i)) + 1
                  \<and> count_list (snd s') i = count_list tr i + 1
                  \<and> \<not> triggered (m_events (fst s') i)))
     \<and> (DoTrigger run i ^^ N) (w, tr) =
          (w\<lparr>m_events := (m_events w)(i := (m_events w i)\<lparr>triggered := True,
               diagnostics := (diagnostics (m_events w i))\<lparr>triggerCount :=
                  triggerCount (diagnostics (m_events w i)) + of_nat N\<rparr>\<rparr>)\<rparr>, tr)"
proof -
  let ?e = "m_events w i"
  note rs = registered_slot [OF assms(1)]
  have dt: "(DoTrigger run i ^^ N) (w, tr) =
          (w\<lparr>m_events := (m_events w)(i := ?e\<lparr>triggered := True,
               diagnostics := (diagnostics ?e)\<lparr>triggerCount :=
                  triggerCount (diagnostics ?e) + of_nat N\<rparr>\<rparr>)\<rparr>, tr)"
    using DoTrigger_fires_main [OF assms(2), where run = run and N = N and tr = tr] assms(5)
    by simp
  from OnEvent_fires_main [OF assms(2), where P = P and run = run and N = N and tr = tr]
  obtain wN t where
    f: "(OnEvent P run i ^^ N) (w, tr) = (wN, tr)" and n: "m_numEvents wN = m_numEvents w"
    and e: "m_events wN i = ?e\<lparr>triggered := (triggered ?e \<or> 0 < N),
          diagnostics := (diagnostics ?e)\<lparr>triggerCount := triggerCount (diagnostics ?e) + of_nat N\<rparr>,
          timer := t\<rparr>"
    by blast
  have g: "triggered (m_events wN i)"
    "triggerCount (diagnostics (m_events wN i)) = triggerCount (diagnostics ?e) + of_nat N"
    "processCount (diagnostics (m_events wN i)) = processCount (diagnostics ?e)"
    "callback (m_events wN i) \<noteq> None"
    using assms(5) rs(3) by (simp_all add: e)
  have sw: "\<exists>s'. AppEvent_ProcessMainEvents P run (wN, tr) = Inr s'
                  \<and> processCount (diagnostics (m_events (fst s') i))
                      = processCount (diagnostics (m_events wN i)) + 1
                  \<and> count_list (snd s') i = count_list tr i + 1
                  \<and> \<not> triggered (m_events (fst s') i)"
    if h: "\<not> paused (m_events wN i)" "TimerRunning P (timer (m_events wN i))" "leaves_alone run i"
  proof -
    have a: "admitted P (m_events wN i)" using h(2) by (simp add: admitted_def)
    from sweep_dispatch [OF h(3) _ _ g(1) h(1) a g(4), of tr] assms(1) n rs(5)
    obtain s' where "AppEvent_ProcessMainEvents P run (wN, tr) = Inr s'"
      and e': "m_events (fst s') i = (m_events wN i)\<lparr>triggered := False,
                    diagnostics := (diagnostics (m_events wN i))\<lparr>processCount :=
                       processCount (diagnostics (m_events wN i)) + 1\<rparr>\<rparr>"
      and "count_list (snd s') i = count_list tr i + 1"
      by (auto simp: registered_def)
    moreover have "\<not> triggered (m_events (fst s') i)"
      "processCount (diagnostics (m_events (fst s') i)) = processCount (diagnostics (m_events wN i)) + 1"
      by (simp_all add: e')
    ultimately show ?thesis by blast
  qed
  from f g sw dt show ?thesis by blast
qed

theorem coalescing_law_witness:
  "triggered (m_events sim_fired 1)
   \<and> triggerCount (diagnostics (m_events sim_fired 1)) = 3
   \<and> processCount (diagnostics (m_events (fst (projr (AppEvent_ProcessMainEvents sim_platform
          idle_run (sim_fired, [])))) 1)) = 1
   \<and> count_list (snd (projr (AppEvent_ProcessMainEvents sim_platform idle_run (sim_fired, [])))) 1 = 1
   \<and> \<not> triggered (m_events (fst (projr (AppEvent_ProcessMainEvents sim_platform idle_run
          (sim_fired, [])))) 1)"
proof -
  have h: "ev_context (m_events sim_armed 1) = APP_EVENT_CONTEXT_MAIN"
    "ev_type (m_events sim_armed 1) = EVENT_TYPE_TIMER" "\<not> ev_single (m_events sim_armed 1)"
    "triggerCount (diagnostics (m_events sim_armed 1)) = 0"
    "processCount (diagnostics (m_events sim_armed 1)) = 0"
    by (simp_all add: sim_armed_fields sim_world_fields zero_event_def)
  have f: "(OnEvent sim_platform idle_run 1 ^^ 3) (sim_armed, []) = (sim_fired, [])"
    using OnEvent_fires_main [OF h(1), where P = sim_platform and run = idle_run and N = 3 and tr = "[]"]
    by (auto simp: sim_fired_def)
  have g: "\<not> paused (m_events sim_fired 1)" "TimerRunning sim_platform (timer (m_events sim_fired 1))"
    by (simp_all add: sim_fired_fields sim_armed_fields sim_world_fields zero_event_def sim_platform_def)
  have r: "registered sim_armed 1" using registered_sim_armed by simp
  from coalescing_law [OF r h(1,2,3), where N = 3 and P = sim_platform and run = idle_run and tr = "[]"] f g h(4,5)
    leaves_alone_idle [of 1]
  show ?thesis by auto
qed

text \<open>
  The claim as written also promises the sweep for a paused event. The sweep skips
  it: the timer event is started, paused, fires three times, and the sweep neither
  counts nor calls nor clears anything.
\<close>

theorem coalescing_paused_counterexample:
  "ev_context (m_events sim_paused_fired 1) = APP_EVENT_CONTEXT_MAIN
   \<and> ev_type (m_events sim_paused_fired 1) = EVENT_TYPE_TIMER
   \<and> \<not> ev_single (m_events sim_paused_fired 1)
   \<and> TimerRunning sim_platform (timer (m_events sim_paused_fired 1))
   \<and> triggerCount (diagnostics (m_events sim_paused_fired 1)) = 3
   \<and> processCount (diagnostics (m_events sim_paused_fired 1)) = 0
   \<and> processCount (diagnostics (m_events (fst (projr (AppEvent_ProcessMainEvents sim_platform
          idle_run (sim_paused_fired, [])))) 1)) = 0
   \<and> count_list (snd (projr (AppEvent_ProcessMainEvents sim_platform idle_run
          (sim_paused_fired, [])))) 1 = 0
   \<and> triggered (m_events (fst (projr (AppEvent_ProcessMainEvents sim_platform idle_run
          (sim_paused_fired, [])))) 1)"
proof -
  have h: "ev_context (m_events sim_paused_fired (Suc 0)) = APP_EVENT_CONTEXT_MAIN"
    "ev_type (m_events sim_paused_fired (Suc 0)) = EVENT_TYPE_TIMER"
    "\<not> ev_single (m_events sim_paused_fired (Suc 0))"
    "TimerRunning sim_platform (timer (m_events sim_paused_fired (Suc 0)))"
    "triggerCount (diagnostics (m_events sim_paused_fired (Suc 0))) = 3"
    "processCount (diagnostics (m_events sim_paused_fired (Suc 0))) = 0"
    "triggered (m_events sim_paused_fired (Suc 0))" "paused (m_events sim_paused_fired (Suc 0))"
    by (simp_all add: sim_paused_fired_fields sim_armed_fields sim_world_fields zero_event_def
          sim_platform_def)
  from sweep_skip [OF leaves_alone_idle, where i = "Suc 0" and w = sim_paused_fired and P = sim_platform and tr = "[]"] h
  obtain s' where "AppEvent_ProcessMainEvents sim_platform idle_run (sim_paused_fired, []) = Inr s'"
    and "m_events (fst s') (Suc 0) = m_events sim_paused_fired (Suc 0)"
    and "count_list (snd s') (Suc 0) = 0"
    by (auto simp: MAX_EVENTS_def sim_paused_fired_fields)
  with h show ?thesis by simp
qed

subsection \<open>C2: a re-trigger from inside the callback\<close>




subsection \<open>C3: ids that are out of range\<close>

text \<open>
  Claim C3, amended. \<open>AppEvent_Trigger\<close> and \<open>AppEvent_Start\<close> do not check the id, and
  an id at or beyond the number of registered events halts neither. For every such id
  \<open>AppEvent_Trigger\<close> finds no descriptor with that id and returns the state and the
  trace as they were: no descriptor is changed, no callback invoked. For every such id
  below \<open>MAX_EVENTS\<close>, \<open>AppEvent_Start\<close> returns normally after writing into the
  unregistered cell: the flag is cleared, \<open>single\<close> and the start time are recorded, and
  \<open>StartEvent\<close> is run on the cell. (The statement is about a state that satisfies the
  registry invariant, and about these two operations only.)
\<close>

theorem unchecked_id:
  assumes "registry_inv w" and "unat (m_numEvents w) \<le> unat eid"
  shows "AppEvent_Trigger run eid (w, tr) = Inr (w, tr)
     \<and> (unat eid < MAX_EVENTS \<longrightarrow>
          (\<exists>w1. AppEvent_Start P eid sgl w = Inr w1
             \<and> \<not> triggered (m_events w1 (unat eid))
             \<and> ev_single (m_events w1 (unat eid)) = sgl
             \<and> startTime (diagnostics (m_events w1 (unat eid))) = TimerGetCurrentTime P (plat w)
             \<and> w1 = StartEvent P (unat eid) (w\<lparr>m_events := (m_events w)(unat eid :=
                   (m_events w (unat eid))\<lparr>triggered := False, ev_single := sgl,
                      diagnostics := (diagnostics (m_events w (unat eid)))\<lparr>startTime :=
                        TimerGetCurrentTime P (plat w)\<rparr>\<rparr>)\<rparr>)))"
proof -
  have n: "unat (m_numEvents w) \<le> MAX_EVENTS" using assms(1) by (simp add: registry_inv_alt)
  have ne: "\<forall>j. unat (0 :: u8) \<le> j \<and> j < unat (m_numEvents w) \<longrightarrow> ev_id (m_events w j) \<noteq> eid"
    using registered_id_neq [OF assms(1)] assms(2) by auto
  have t: "AppEvent_Trigger run eid (w, tr) = Inr (w, tr)"
    unfolding AppEvent_Trigger_def using ne n by (intro Trigger_loop_nomatch_from) simp_all
  have s: "\<exists>w1. AppEvent_Start P eid sgl w = Inr w1
             \<and> \<not> triggered (m_events w1 (unat eid))
             \<and> ev_single (m_events w1 (unat eid)) = sgl
             \<and> startTime (diagnostics (m_events w1 (unat eid))) = TimerGetCurrentTime P (plat w)
             \<and> w1 = StartEvent P (unat eid) (w\<lparr>m_events := (m_events w)(unat eid :=
                   (m_events w (unat eid))\<lparr>triggered := False, ev_single := sgl,
                      diagnostics := (diagnostics (m_events w (unat eid)))\<lparr>startTime :=
                        TimerGetCurrentTime P (plat w)\<rparr>\<rparr>)\<rparr>)"
    if inb: "unat eid < MAX_EVENTS"
  proof -
    from Start_effect [OF inb, of P sgl w] obtain w1 where
      w1: "AppEvent_Start P eid sgl w = Inr w1"
      and e1: "m_events w1 (unat eid) = (m_events w (unat eid))\<lparr>triggered := False, ev_single := sgl,
          diagnostics := (diagnostics (m_events w (unat eid)))\<lparr>startTime := TimerGetCurrentTime P (plat w)\<rparr>,
          timer := timer (m_events w1 (unat eid))\<rparr>"
      by blast
    have f: "\<not> triggered (m_events w1 (unat eid))" "ev_single (m_events w1 (unat eid)) = sgl"
      "startTime (diagnostics (m_events w1 (unat eid))) = TimerGetCurrentTime P (plat w)"
      by (subst e1, simp)+
    from w1 inb have "w1 = StartEvent P (unat eid) (w\<lparr>m_events := (m_events w)(unat eid :=
                   (m_events w (unat eid))\<lparr>triggered := False, ev_single := sgl,
                      diagnostics := (diagnostics (m_events w (unat eid)))\<lparr>startTime :=
                        TimerGetCurrentTime P (plat w)\<rparr>\<rparr>)\<rparr>)"
      by (simp add: AppEvent_Start_def Let_def)
    with w1 f show ?thesis by blast
  qed
  from t s show ?thesis by blast
qed

theorem unchecked_id_witness:
  "AppEvent_Trigger idle_run 5 (sim_world, []) = Inr (sim_world, [])
   \<and> ev_single (m_events (projr (AppEvent_Start sim_platform 5 True sim_world)) 5)
   \<and> \<not> triggered (m_events (projr (AppEvent_Start sim_platform 5 True sim_world)) 5)"
proof -
  have h: "unat (m_numEvents sim_world) \<le> unat (5 :: u8)" "unat (5 :: u8) < MAX_EVENTS"
    by (simp_all add: sim_world_fields MAX_EVENTS_def)
  from unchecked_id [OF registry_inv_sim_world h(1), where run = idle_run and tr = "[]"
      and P = sim_platform and sgl = True] h(2)
  show ?thesis by auto
qed

text \<open>
  The claim as written says that both calls halt without touching a descriptor. With
  three events registered and id 5: \<open>Trigger\<close> returns, and \<open>Start\<close> returns having set
  \<open>single\<close> in cell 5.
\<close>

theorem out_of_range_counterexample:
  "unat (m_numEvents sim_world) \<le> unat (5 :: u8)
   \<and> AppEvent_Trigger idle_run 5 (sim_world, []) = Inr (sim_world, [])
   \<and> \<not> isl (AppEvent_Start sim_platform 5 True sim_world)
   \<and> \<not> ev_single (m_events sim_world 5)
   \<and> ev_single (m_events (projr (AppEvent_Start sim_platform 5 True sim_world)) 5)"
  by (simp add: AppEvent_Trigger_def Trigger_loop.simps AppEvent_Start_def StartEvent_def
        MAX_EVENTS_def Let_def sim_world_fields zero_event_def sim_platform_def)

subsection \<open>C4: timer accessors on events of another kind\<close>

text \<open>
  Claim C4, amended. For a registered event that holds a GPIO line (an interrupt
  event registered with a line that is not \<^verbatim>\<open>NULL\<close>), \<open>AppEvent_GetTimeout\<close> fails its
  assertion: the program halts. \<open>AppEvent_TimeRemaining\<close> and \<open>AppEvent_Running\<close> assert
  nothing: for every registered event, of whatever kind, they return what the timer
  service reports for the timer object of the descriptor.
\<close>

theorem timer_accessor_guards:
  assumes "registered w (unat eid)"
  shows "(irqGpio (m_events w (unat eid)) \<noteq> None \<longrightarrow> AppEvent_GetTimeout eid w = Inl ASSERT_FAILED)
     \<and> AppEvent_TimeRemaining P eid w
          = Inr (TimerTimeRemaining P (plat w) (timer (m_events w (unat eid))))
     \<and> AppEvent_Running P eid w = Inr (TimerRunning P (timer (m_events w (unat eid))))"
  using registered_slot(1) [OF assms]
  by (simp add: AppEvent_GetTimeout_def AppEvent_TimeRemaining_def AppEvent_Running_def Let_def)

theorem timer_accessor_guards_witness:
  "AppEvent_GetTimeout 2 sim_world = Inl ASSERT_FAILED
   \<and> AppEvent_TimeRemaining sim_platform 2 sim_world = Inr 0
   \<and> AppEvent_Running sim_platform 2 sim_world = Inr False"
proof -
  have r: "registered sim_world (unat (2 :: u8))" using registered_sim_world(3) by simp
  from timer_accessor_guards [OF r, where P = sim_platform] show ?thesis
    by (simp add: sim_world_fields zero_event_def sim_platform_def)
qed

text \<open>
  The claim as written says that the three accessors halt on every general and every
  interrupt event. \<open>TimeRemaining\<close> and \<open>Running\<close> return on both.
\<close>

theorem accessors_return_counterexample:
  "ev_type (m_events sim_world 0) = EVENT_TYPE_GENERAL
   \<and> AppEvent_TimeRemaining sim_platform 0 sim_world = Inr 0
   \<and> AppEvent_Running sim_platform 0 sim_world = Inr False
   \<and> ev_type (m_events sim_world 2) = EVENT_TYPE_INTERRUPT
   \<and> AppEvent_TimeRemaining sim_platform 2 sim_world = Inr 0
   \<and> AppEvent_Running sim_platform 2 sim_world = Inr False"
  by (simp add: AppEvent_TimeRemaining_def AppEvent_Running_def
        MAX_EVENTS_def Let_def sim_world_fields zero_event_def sim_platform_def)

text \<open>
  The amended claim is silent on \<open>AppEvent_GetTimeout\<close> for general events. Its
  assertion tests the GPIO line only, under the comment
  \<^verbatim>\<open>This function is only valid for timer events\<close>; a general event has no line, so the
  call returns the timeout of the zero-initialised cell.
\<close>

lemma GetTimeout_on_general_event:
  "ev_type (m_events sim_world 0) = EVENT_TYPE_GENERAL \<and> AppEvent_GetTimeout 0 sim_world = Inr 0"
  by (simp add: AppEvent_GetTimeout_def MAX_EVENTS_def Let_def sim_world_fields zero_event_def)

subsection \<open>C5: ids are the registration order\<close>

text \<open>
  Claim C5. Whatever the four entry points are called with and in whatever order, a
  run of successful registrations returns the ids \<open>n, n + 1, n + 2, \<dots>\<close> where \<open>n\<close> is the
  number of events registered before the run (so \<open>0, 1, 2, \<dots>\<close> after start-up): each id is
  the number of events registered before it. The ids are pairwise distinct, the count
  grows by one per registration, and if the ids stored in the table were \<open>0 \<dots> count - 1\<close>
  before the run they are \<open>0 \<dots> count - 1\<close> after it, and they stay so in every state
  reached by steps that keep the registry. (That is every other operation of event.c:
  none writes an id or the count, see the lemmas on \<open>same_registry\<close>.)
\<close>

theorem registration_ids:
  assumes "register_all P rs w = Inr (ids, w')"
  shows "map unat ids = [unat (m_numEvents w)..<unat (m_numEvents w) + length rs]
     \<and> distinct ids
     \<and> unat (m_numEvents w') = unat (m_numEvents w) + length rs
     \<and> (assigned_ids w = [0..<unat (m_numEvents w)] \<longrightarrow>
          assigned_ids w' = [0..<unat (m_numEvents w')]
          \<and> (\<forall>v. same_registry w' v \<longrightarrow> assigned_ids v = [0..<unat (m_numEvents v)]))"
proof -
  note r = register_all_ids [OF assms]
  from r have "distinct (map unat ids)" by simp
  then have d: "distinct ids" by (simp add: distinct_map)
  have "assigned_ids v = [0..<unat (m_numEvents v)]"
    if "assigned_ids w' = [0..<unat (m_numEvents w')]" and "same_registry w' v" for v
    using that assigned_ids_same [of w' v] by (simp add: same_registry_def)
  with r d show ?thesis by blast
qed

theorem registration_ids_witness:
  "map unat [0, 1, 2 :: u8] = [0..<0 + length three_regs] \<and> distinct [0, 1, 2 :: u8]
   \<and> assigned_ids (snd (projr (register_all sim_platform three_regs sim_boot))) = [0..<3]"
proof -
  have n: "m_numEvents sim_boot = 0" by (simp add: sim_boot_def boot_def AppEvent_Init_def)
  have a: "assigned_ids sim_boot = [0..<unat (m_numEvents sim_boot)]"
    by (simp add: n assigned_ids_def)
  have l: "length three_regs = 3" by (simp add: three_regs_def)
  from registration_ids [OF three_regs_run] a n l show ?thesis
    by simp
qed

subsection \<open>C6: the trigger path of an Immediate event\<close>

text \<open>
  Claim C6. Let \<open>i\<close> be a registered event of the Immediate context. Its callback is not
  \<^verbatim>\<open>NULL\<close>, and one call of the trigger path increments \<open>triggerCount\<close> and
  \<open>processCount\<close> by 1 each (16-bit counters), leaves \<open>triggered\<close> as it was, and
  invokes the callback exactly once, inside the call, on the state so updated.
  \<open>AppEvent_Trigger\<close> with the id of the event is exactly one such call, when the
  callbacks keep the registry.
\<close>

theorem immediate_trigger:
  assumes "registered w i" and "ev_context (m_events w i) = APP_EVENT_CONTEXT_IMMEDIATE"
  shows "callback (m_events w i) \<noteq> None
     \<and> (let e = m_events w i; d = diagnostics e;
             w1 = w\<lparr>m_events := (m_events w)(i := e\<lparr>diagnostics := d\<lparr>
                       triggerCount := triggerCount d + 1, processCount := processCount d + 1\<rparr>\<rparr>)\<rparr>
         in DoTrigger run i (w, tr) = (run (the (callback e)) w1, tr @ [i])
            \<and> triggered (m_events w1 i) = triggered e)
     \<and> count_list (tr @ [i]) i = count_list tr i + 1
     \<and> ((\<forall>c v. same_registry v (run c v)) \<longrightarrow>
          AppEvent_Trigger run (of_nat i) (w, tr) = Inr (DoTrigger run i (w, tr)))"
proof -
  have u: "unat (of_nat i :: u8) = i"
    using registered_slot(1) [OF assms(1)] by (simp add: MAX_EVENTS_def unat_of_nat)
  have t: "AppEvent_Trigger run (of_nat i) (w, tr) = Inr (DoTrigger run i (w, tr))"
    if "\<forall>c v. same_registry v (run c v)"
    using Trigger_registered [OF that, of w "of_nat i" tr] assms(1) u by simp
  from registered_slot(3) [OF assms(1)] assms(2) t show ?thesis
    by (auto simp: DoTrigger_def Let_def)
qed

theorem immediate_trigger_witness:
  "snd (DoTrigger idle_run 2 (sim_world, [])) = [2]
   \<and> triggerCount (diagnostics (m_events (fst (DoTrigger idle_run 2 (sim_world, []))) 2)) = 1
   \<and> processCount (diagnostics (m_events (fst (DoTrigger idle_run 2 (sim_world, []))) 2)) = 1
   \<and> \<not> triggered (m_events (fst (DoTrigger idle_run 2 (sim_world, []))) 2)"
proof -
  have c: "ev_context (m_events sim_world 2) = APP_EVENT_CONTEXT_IMMEDIATE"
    by (simp add: sim_world_fields zero_event_def)
  from immediate_trigger [OF registered_sim_world(3) c, of idle_run "[]"] show ?thesis
    by (simp add: Let_def idle_run_def sim_world_fields zero_event_def)
qed

subsection \<open>C7: SetTimeout, then GetTimeout\<close>

text \<open>
  Claim C7. For a registered timer event and every value \<open>t\<close>, \<open>AppEvent_SetTimeout\<close>
  returns normally; afterwards \<open>triggered\<close> is false, the stored timeout is \<open>t\<close>, and
  \<open>AppEvent_GetTimeout\<close> returns \<open>t\<close>.
\<close>

theorem set_timeout_roundtrip:
  assumes "registered w (unat eid)" and "ev_type (m_events w (unat eid)) = EVENT_TYPE_TIMER"
  shows "\<exists>w'. AppEvent_SetTimeout P eid t w = Inr w'
          \<and> \<not> triggered (m_events w' (unat eid))
          \<and> timeout (m_events w' (unat eid)) = t
          \<and> AppEvent_GetTimeout eid w' = Inr t"
proof -
  from registered_slot(1,4) [OF assms(1)] assms(2)
  have inb: "unat eid < MAX_EVENTS" and g: "irqGpio (m_events w (unat eid)) = None"
    by simp_all
  then show ?thesis
    by (simp add: AppEvent_SetTimeout_def AppEvent_GetTimeout_def Let_def)
qed

theorem set_timeout_roundtrip_witness:
  "triggered (m_events sim_fired 1)
   \<and> \<not> triggered (m_events (projr (AppEvent_SetTimeout sim_platform 1 250 sim_fired)) 1)
   \<and> timeout (m_events (projr (AppEvent_SetTimeout sim_platform 1 250 sim_fired)) 1) = 250
   \<and> AppEvent_GetTimeout 1 (projr (AppEvent_SetTimeout sim_platform 1 250 sim_fired)) = Inr 250"
proof -
  have c: "ev_type (m_events sim_fired (unat (1 :: u8))) = EVENT_TYPE_TIMER"
    "triggered (m_events sim_fired (unat (1 :: u8)))"
    by (simp_all add: sim_fired_fields sim_armed_fields sim_world_fields zero_event_def)
  have r: "registered sim_fired (unat (1 :: u8))" using registered_sim_fired by simp
  from set_timeout_roundtrip [OF r c(1), where P = sim_platform and t = 250] c(2)
  show ?thesis by auto
qed

subsection \<open>C8: Pause and Resume\<close>

text \<open>
  Claim C8, amended. Let \<open>eid\<close> be a registered event of the Main context.
  \<^item> \<open>AppEvent_Pause\<close> returns normally and sets \<open>paused\<close>, nothing else.
  \<^item> While the event is paused and the callbacks neither resume it, nor touch its
    \<open>processCount\<close>, nor change the count of registered events, any number of sweeps
    invokes its callback not once and leaves its \<open>processCount\<close> as it was.
  \<^item> Paused or not, the trigger path sets \<open>triggered\<close> and increments \<open>triggerCount\<close>, and
    invokes no callback.
  \<^item> \<open>AppEvent_Resume\<close> returns normally and clears \<open>paused\<close>, nothing else. If a flag is
    pending, the event passes the admission test of the sweep, and the callbacks leave
    the descriptor of the event alone and do not change the count of registered
    events, the next sweep dispatches it: one invocation, \<open>processCount\<close> incremented by
    1, flag cleared.
  \<^item> From end to end, under the same conditions on the event and on the callbacks:
    a flag pending on the paused event is still pending, with the whole descriptor
    unchanged and nothing invoked, after any number of sweeps; \<open>AppEvent_Resume\<close> then
    succeeds, and the sweep after it dispatches the event once.
\<close>

theorem pause_resume:
  assumes "registered w (unat eid)"
    and "ev_context (m_events w (unat eid)) = APP_EVENT_CONTEXT_MAIN"
  shows "(\<exists>wp. AppEvent_Pause eid w = Inr wp
            \<and> m_events wp (unat eid) = (m_events w (unat eid))\<lparr>paused := True\<rparr>)
     \<and> (paused (m_events w (unat eid))
          \<and> (\<forall>c v. m_numEvents (run c v) = m_numEvents v
                 \<and> (paused (m_events v (unat eid)) \<longrightarrow> paused (m_events (run c v) (unat eid)))
                 \<and> processCount (diagnostics (m_events (run c v) (unat eid)))
                     = processCount (diagnostics (m_events v (unat eid)))) \<longrightarrow>
          (\<exists>s'. sweeps P run k (w, tr) = Inr s'
             \<and> count_list (snd s') (unat eid) = count_list tr (unat eid)
             \<and> processCount (diagnostics (m_events (fst s') (unat eid)))
                 = processCount (diagnostics (m_events w (unat eid)))
             \<and> paused (m_events (fst s') (unat eid))))
     \<and> DoTrigger run (unat eid) (w, tr) =
          (w\<lparr>m_events := (m_events w)(unat eid := (m_events w (unat eid))\<lparr>triggered := True,
               diagnostics := (diagnostics (m_events w (unat eid)))\<lparr>triggerCount :=
                  triggerCount (diagnostics (m_events w (unat eid))) + 1\<rparr>\<rparr>)\<rparr>, tr)
     \<and> (\<exists>wr. AppEvent_Resume eid w = Inr wr
            \<and> m_events wr (unat eid) = (m_events w (unat eid))\<lparr>paused := False\<rparr>
            \<and> (triggered (m_events w (unat eid)) \<and> admitted P (m_events w (unat eid))
                 \<and> leaves_alone run (unat eid) \<longrightarrow>
                 (\<exists>s'. AppEvent_ProcessMainEvents P run (wr, tr) = Inr s'
                    \<and> count_list (snd s') (unat eid) = count_list tr (unat eid) + 1
                    \<and> processCount (diagnostics (m_events (fst s') (unat eid)))
                        = processCount (diagnostics (m_events w (unat eid))) + 1
                    \<and> \<not> triggered (m_events (fst s') (unat eid)))))
     \<and> (paused (m_events w (unat eid)) \<and> triggered (m_events w (unat eid))
          \<and> admitted P (m_events w (unat eid)) \<and> leaves_alone run (unat eid) \<longrightarrow>
          (\<exists>s1 wr s'. sweeps P run k (w, tr) = Inr s1
             \<and> m_events (fst s1) (unat eid) = m_events w (unat eid)
             \<and> count_list (snd s1) (unat eid) = count_list tr (unat eid)
             \<and> AppEvent_Resume eid (fst s1) = Inr wr
             \<and> AppEvent_ProcessMainEvents P run (wr, snd s1) = Inr s'
             \<and> count_list (snd s') (unat eid) = count_list tr (unat eid) + 1
             \<and> processCount (diagnostics (m_events (fst s') (unat eid)))
                 = processCount (diagnostics (m_events w (unat eid))) + 1
             \<and> \<not> triggered (m_events (fst s') (unat eid))))"
proof -
  let ?i = "unat eid"
  let ?e = "m_events w ?i"
  note rs = registered_slot [OF assms(1)]
  have lt: "?i < unat (m_numEvents w)" using assms(1) by (simp add: registered_def)
  have p1: "\<exists>wp. AppEvent_Pause eid w = Inr wp \<and> m_events wp ?i = ?e\<lparr>paused := True\<rparr>"
    using rs(1) assms(2) by (simp add: AppEvent_Pause_def Let_def)
  have p2: "\<exists>s'. sweeps P run k (w, tr) = Inr s'
             \<and> count_list (snd s') ?i = count_list tr ?i
             \<and> processCount (diagnostics (m_events (fst s') ?i)) = processCount (diagnostics ?e)
             \<and> paused (m_events (fst s') ?i)"
    if pz: "paused ?e" and cb: "\<forall>c v. m_numEvents (run c v) = m_numEvents v
                 \<and> (paused (m_events v ?i) \<longrightarrow> paused (m_events (run c v) ?i))
                 \<and> processCount (diagnostics (m_events (run c v) ?i))
                     = processCount (diagnostics (m_events v ?i))"
  proof -
    let ?Q = "\<lambda>x. paused x \<and> processCount (diagnostics x) = processCount (diagnostics ?e)"
    have cbn: "\<forall>c v. m_numEvents (run c v) = m_numEvents v" using cb by simp
    have cbQ: "\<forall>c v. ?Q (m_events v ?i) \<longrightarrow> ?Q (m_events (run c v) ?i)"
      using cb by simp
    have step: "\<forall>s1. ?Q (m_events (fst s1) ?i) \<longrightarrow>
                 ?Q (m_events (fst (ProcessMainEvents_body P run ?i s1)) ?i)
                 \<and> count_list (snd (ProcessMainEvents_body P run ?i s1)) ?i = count_list (snd s1) ?i + 0"
      by (simp add: ProcessMainEvents_body_def Let_def)
    from sweeps_invariant [where Q = ?Q and s = "(w, tr)" and P = P and k = k, OF cbn cbQ step]
      lt rs(5) pz show ?thesis by auto
  qed
  have p3: "DoTrigger run ?i (w, tr) =
          (w\<lparr>m_events := (m_events w)(?i := ?e\<lparr>triggered := True,
               diagnostics := (diagnostics ?e)\<lparr>triggerCount :=
                  triggerCount (diagnostics ?e) + 1\<rparr>\<rparr>)\<rparr>, tr)"
    using assms(2) by (simp add: DoTrigger_def Let_def)
  obtain wr where wr: "AppEvent_Resume eid w = Inr wr" "m_numEvents wr = m_numEvents w"
    and er: "m_events wr ?i = ?e\<lparr>paused := False\<rparr>"
    using rs(1) assms(2) by (simp add: AppEvent_Resume_def Let_def)
  have p4: "\<exists>s'. AppEvent_ProcessMainEvents P run (wr, tr) = Inr s'
                    \<and> count_list (snd s') ?i = count_list tr ?i + 1
                    \<and> processCount (diagnostics (m_events (fst s') ?i))
                        = processCount (diagnostics ?e) + 1
                    \<and> \<not> triggered (m_events (fst s') ?i)"
    if h: "triggered ?e" "admitted P ?e" "leaves_alone run ?i"
  proof -
    have a: "triggered (m_events wr ?i)" "\<not> paused (m_events wr ?i)" "admitted P (m_events wr ?i)"
      "callback (m_events wr ?i) \<noteq> None"
      using h rs(3) by (simp_all add: er admitted_def)
    from sweep_dispatch [OF h(3) _ _ a, of tr] lt wr(2) rs(5)
    obtain s' where "AppEvent_ProcessMainEvents P run (wr, tr) = Inr s'"
      and e': "m_events (fst s') ?i = (m_events wr ?i)\<lparr>triggered := False,
                    diagnostics := (diagnostics (m_events wr ?i))\<lparr>processCount :=
                       processCount (diagnostics (m_events wr ?i)) + 1\<rparr>\<rparr>"
      and "count_list (snd s') ?i = count_list tr ?i + 1"
      by auto
    moreover have "\<not> triggered (m_events (fst s') ?i)"
      "processCount (diagnostics (m_events (fst s') ?i)) = processCount (diagnostics ?e) + 1"
      by (simp_all add: e' er)
    ultimately show ?thesis by blast
  qed
  have p5: "\<exists>s1 wr s'. sweeps P run k (w, tr) = Inr s1
             \<and> m_events (fst s1) ?i = ?e
             \<and> count_list (snd s1) ?i = count_list tr ?i
             \<and> AppEvent_Resume eid (fst s1) = Inr wr
             \<and> AppEvent_ProcessMainEvents P run (wr, snd s1) = Inr s'
             \<and> count_list (snd s') ?i = count_list tr ?i + 1
             \<and> processCount (diagnostics (m_events (fst s') ?i)) = processCount (diagnostics ?e) + 1
             \<and> \<not> triggered (m_events (fst s') ?i)"
    if h: "paused ?e" "triggered ?e" "admitted P ?e" "leaves_alone run ?i"
  proof -
    let ?Q = "\<lambda>x. x = ?e"
    have cbn: "\<forall>c v. m_numEvents (run c v) = m_numEvents v" using h(4) by (simp add: leaves_alone_def)
    have cbQ: "\<forall>c v. ?Q (m_events v ?i) \<longrightarrow> ?Q (m_events (run c v) ?i)"
      using h(4) by (simp add: leaves_alone_def)
    have step: "\<forall>s1. ?Q (m_events (fst s1) ?i) \<longrightarrow>
                 ?Q (m_events (fst (ProcessMainEvents_body P run ?i s1)) ?i)
                 \<and> count_list (snd (ProcessMainEvents_body P run ?i s1)) ?i = count_list (snd s1) ?i + 0"
      using h(1) by (auto simp: ProcessMainEvents_body_def Let_def)
    from sweeps_invariant [where Q = ?Q and s = "(w, tr)" and P = P and k = k, OF cbn cbQ step]
      lt rs(5)
    obtain s1 where s1: "sweeps P run k (w, tr) = Inr s1" and e1: "m_events (fst s1) ?i = ?e"
      and c1: "count_list (snd s1) ?i = count_list tr ?i"
      by auto
    from sweeps_numEvents [OF cbn s1] have n1: "m_numEvents (fst s1) = m_numEvents w" by simp
    obtain wq where wq: "AppEvent_Resume eid (fst s1) = Inr wq" "m_numEvents wq = m_numEvents w"
      and eq: "m_events wq ?i = ?e\<lparr>paused := False\<rparr>"
      using rs(1) assms(2) e1 n1 by (simp add: AppEvent_Resume_def Let_def)
    have a: "triggered (m_events wq ?i)" "\<not> paused (m_events wq ?i)" "admitted P (m_events wq ?i)"
      "callback (m_events wq ?i) \<noteq> None"
      using h rs(3) by (simp_all add: eq admitted_def)
    from sweep_dispatch [OF h(4) _ _ a, of "snd s1"] lt wq(2) rs(5)
    obtain s' where s': "AppEvent_ProcessMainEvents P run (wq, snd s1) = Inr s'"
      and e': "m_events (fst s') ?i = (m_events wq ?i)\<lparr>triggered := False,
                    diagnostics := (diagnostics (m_events wq ?i))\<lparr>processCount :=
                       processCount (diagnostics (m_events wq ?i)) + 1\<rparr>\<rparr>"
      and c': "count_list (snd s') ?i = count_list (snd s1) ?i + 1"
      by auto
    have "\<not> triggered (m_events (fst s') ?i)"
      "processCount (diagnostics (m_events (fst s') ?i)) = processCount (diagnostics ?e) + 1"
      by (simp_all add: e' eq)
    with s1 e1 c1 wq(1) s' c' show ?thesis
      by (intro exI [of _ s1] exI [of _ wq] exI [of _ s']) simp
  qed
  from p1 p2 p3 wr(1) er p4 p5 show ?thesis by blast
qed

theorem pause_resume_witness:
  "paused (m_events sim_paused_fired 1) \<and> triggered (m_events sim_paused_fired 1)
   \<and> count_list (snd (projr (sweeps sim_platform idle_run 2 (sim_paused_fired, [])))) 1 = 0
   \<and> processCount (diagnostics (m_events (fst (projr (sweeps sim_platform idle_run 2
          (sim_paused_fired, [])))) 1)) = 0
   \<and> triggerCount (diagnostics (m_events (fst (DoTrigger idle_run 1 (sim_paused_fired, []))) 1)) = 4
   \<and> paused (m_events (fst (DoTrigger idle_run 1 (sim_paused_fired, []))) 1)
   \<and> count_list (snd (projr (AppEvent_ProcessMainEvents sim_platform idle_run
          (sim_paused_resumed, [])))) 1 = 1
   \<and> processCount (diagnostics (m_events (fst (projr (AppEvent_ProcessMainEvents sim_platform
          idle_run (sim_paused_resumed, [])))) 1)) = 1
   \<and> \<not> triggered (m_events (fst (projr (AppEvent_ProcessMainEvents sim_platform idle_run
          (sim_paused_resumed, [])))) 1)
   \<and> triggered (m_events (fst sim_paused_swept) 1) \<and> paused (m_events (fst sim_paused_swept) 1)
   \<and> count_list (snd sim_paused_swept) 1 = 0
   \<and> count_list (snd (projr (AppEvent_ProcessMainEvents sim_platform idle_run
          (projr (AppEvent_Resume 1 (fst sim_paused_swept)), snd sim_paused_swept)))) 1 = 1
   \<and> processCount (diagnostics (m_events (fst (projr (AppEvent_ProcessMainEvents sim_platform
          idle_run (projr (AppEvent_Resume 1 (fst sim_paused_swept)), snd sim_paused_swept)))) 1)) = 1
   \<and> \<not> triggered (m_events (fst (projr (AppEvent_ProcessMainEvents sim_platform idle_run
          (projr (AppEvent_Resume 1 (fst sim_paused_swept)), snd sim_paused_swept)))) 1)"
proof -
  have r: "registered sim_paused_fired (unat (1 :: u8))" using registered_sim_paused_fired by simp
  have h: "ev_context (m_events sim_paused_fired (unat (1 :: u8))) = APP_EVENT_CONTEXT_MAIN"
    "paused (m_events sim_paused_fired (unat (1 :: u8)))"
    "triggered (m_events sim_paused_fired (unat (1 :: u8)))"
    "admitted sim_platform (m_events sim_paused_fired (unat (1 :: u8)))"
    "processCount (diagnostics (m_events sim_paused_fired (unat (1 :: u8)))) = 0"
    "triggerCount (diagnostics (m_events sim_paused_fired (unat (1 :: u8)))) = 3"
    by (simp_all add: sim_paused_fired_fields sim_armed_fields sim_world_fields zero_event_def
          admitted_def sim_platform_def)
  have cb: "\<forall>c v. m_numEvents (idle_run c v) = m_numEvents v
                 \<and> (paused (m_events v (unat (1 :: u8))) \<longrightarrow> paused (m_events (idle_run c v) (unat (1 :: u8))))
                 \<and> processCount (diagnostics (m_events (idle_run c v) (unat (1 :: u8))))
                     = processCount (diagnostics (m_events v (unat (1 :: u8))))"
    by (simp add: idle_run_def)
  from pause_resume [OF r h(1), where P = sim_platform and run = idle_run and k = 2 and tr = "[]"]
    h cb leaves_alone_idle [of "unat (1 :: u8)"]
  show ?thesis by (auto simp: sim_paused_resumed_def sim_paused_swept_def)
qed

text \<open>
  The claim as written promises the dispatch after \<open>Resume\<close> for every pending flag.
  A continuous timer event that fired while paused and was stopped before being
  resumed does not pass the admission test: the next sweep clears its flag and calls
  nothing.
\<close>

theorem resume_stale_flag_counterexample:
  "ev_context (m_events sim_paused_stopped_resumed 1) = APP_EVENT_CONTEXT_MAIN
   \<and> triggered (m_events sim_paused_stopped_resumed 1)
   \<and> \<not> paused (m_events sim_paused_stopped_resumed 1)
   \<and> count_list (snd (projr (AppEvent_ProcessMainEvents sim_platform idle_run
          (sim_paused_stopped_resumed, [])))) 1 = 0
   \<and> processCount (diagnostics (m_events (fst (projr (AppEvent_ProcessMainEvents sim_platform
          idle_run (sim_paused_stopped_resumed, [])))) 1)) = 0
   \<and> \<not> triggered (m_events (fst (projr (AppEvent_ProcessMainEvents sim_platform idle_run
          (sim_paused_stopped_resumed, [])))) 1)"
proof -
  let ?w = sim_paused_stopped_resumed
  have s: "m_numEvents ?w = 3"
    "m_events ?w (Suc 0) = (m_events sim_paused_fired (Suc 0))\<lparr>paused := False,
        timer := \<lparr>IsStarted = False, ReloadValue = 100\<rparr>\<rparr>"
    by (simp_all add: sim_paused_stopped_resumed_def AppEvent_Resume_def AppEvent_Stop_def
          MAX_EVENTS_def Let_def sim_paused_fired_fields sim_armed_fields sim_world_fields
          zero_event_def sim_platform_def)
  have h: "ev_context (m_events ?w (Suc 0)) = APP_EVENT_CONTEXT_MAIN"
    "triggered (m_events ?w (Suc 0))" "\<not> paused (m_events ?w (Suc 0))"
    "\<not> admitted sim_platform (m_events ?w (Suc 0))"
    "processCount (diagnostics (m_events ?w (Suc 0))) = 0"
    by (simp_all add: s sim_paused_fired_fields sim_armed_fields sim_world_fields zero_event_def
          admitted_def sim_platform_def)
  from sweep_stale [OF leaves_alone_idle, where i = "Suc 0" and w = ?w and P = sim_platform and tr = "[]"]
    h s(1)
  obtain s' where "AppEvent_ProcessMainEvents sim_platform idle_run (?w, []) = Inr s'"
    and "m_events (fst s') (Suc 0) = (m_events ?w (Suc 0))\<lparr>triggered := False\<rparr>"
    and "count_list (snd s') (Suc 0) = 0"
    by (auto simp: MAX_EVENTS_def)
  with h show ?thesis by simp
qed

subsection \<open>C9: Stop and the stale flag\<close>

text \<open>
  Claim C9, amended. For a registered event, \<open>AppEvent_Stop\<close> returns normally and
  leaves \<open>triggered\<close>, \<open>triggerCount\<close> and \<open>processCount\<close> as they were: of the
  descriptor only the timer object may change. If the event is a continuous timer event
  of the Main context whose flag is pending and which is not paused, then, on a
  platform whose stopped timers report that they do not run and with callbacks that
  leave the descriptor of the event alone and do not change the count of registered
  events, the next sweep clears the flag, does not invoke the callback and does not
  increment \<open>processCount\<close>.
\<close>

theorem stop_keeps_flag:
  assumes "registered w (unat eid)"
  shows "\<exists>w1. AppEvent_Stop P eid w = Inr w1
          \<and> triggered (m_events w1 (unat eid)) = triggered (m_events w (unat eid))
          \<and> triggerCount (diagnostics (m_events w1 (unat eid)))
              = triggerCount (diagnostics (m_events w (unat eid)))
          \<and> processCount (diagnostics (m_events w1 (unat eid)))
              = processCount (diagnostics (m_events w (unat eid)))
          \<and> m_events w1 (unat eid) = (m_events w (unat eid))\<lparr>timer := timer (m_events w1 (unat eid))\<rparr>
          \<and> (ev_context (m_events w (unat eid)) = APP_EVENT_CONTEXT_MAIN
               \<and> ev_type (m_events w (unat eid)) = EVENT_TYPE_TIMER
               \<and> \<not> ev_single (m_events w (unat eid))
               \<and> triggered (m_events w (unat eid)) \<and> \<not> paused (m_events w (unat eid))
               \<and> (\<forall>t. \<not> TimerRunning P (TimerStop P t)) \<and> leaves_alone run (unat eid) \<longrightarrow>
               (\<exists>s'. AppEvent_ProcessMainEvents P run (w1, tr) = Inr s'
                  \<and> \<not> triggered (m_events (fst s') (unat eid))
                  \<and> processCount (diagnostics (m_events (fst s') (unat eid)))
                      = processCount (diagnostics (m_events w (unat eid)))
                  \<and> count_list (snd s') (unat eid) = count_list tr (unat eid)))"
proof -
  let ?i = "unat eid"
  let ?e = "m_events w ?i"
  note rs = registered_slot [OF assms]
  from Stop_effect [OF rs(1), of P w] obtain w1 where
    w1: "AppEvent_Stop P eid w = Inr w1" and n1: "m_numEvents w1 = m_numEvents w"
    and e1: "m_events w1 ?i = ?e\<lparr>timer := timer (m_events w1 ?i)\<rparr>"
    and t1: "irqMode ?e = NO_IRQ \<longrightarrow> timer (m_events w1 ?i) = TimerStop P (timer ?e)"
    by blast
  have f: "triggered (m_events w1 ?i) = triggered ?e"
    "triggerCount (diagnostics (m_events w1 ?i)) = triggerCount (diagnostics ?e)"
    "processCount (diagnostics (m_events w1 ?i)) = processCount (diagnostics ?e)"
    "paused (m_events w1 ?i) = paused ?e" "ev_single (m_events w1 ?i) = ev_single ?e"
    "irqMode (m_events w1 ?i) = irqMode ?e" "ev_type (m_events w1 ?i) = ev_type ?e"
    by (subst e1, simp)+
  have sw: "\<exists>s'. AppEvent_ProcessMainEvents P run (w1, tr) = Inr s'
                  \<and> \<not> triggered (m_events (fst s') ?i)
                  \<and> processCount (diagnostics (m_events (fst s') ?i)) = processCount (diagnostics ?e)
                  \<and> count_list (snd s') ?i = count_list tr ?i"
    if h: "ev_type ?e = EVENT_TYPE_TIMER" "\<not> ev_single ?e" "triggered ?e" "\<not> paused ?e"
      "\<forall>t. \<not> TimerRunning P (TimerStop P t)" "leaves_alone run ?i"
  proof -
    from rs(4) h(1) have irq: "irqMode ?e = NO_IRQ" by simp
    with t1 h(5) have nr: "\<not> TimerRunning P (timer (m_events w1 ?i))" by simp
    have na: "\<not> admitted P (m_events w1 ?i)"
      using nr f irq h by (simp add: admitted_def)
    from sweep_stale [OF h(6) _ _ _ _ na, of tr] assms n1 rs(5) f h
    obtain s' where "AppEvent_ProcessMainEvents P run (w1, tr) = Inr s'"
      and e': "m_events (fst s') ?i = (m_events w1 ?i)\<lparr>triggered := False\<rparr>"
      and "count_list (snd s') ?i = count_list tr ?i"
      by (auto simp: registered_def)
    moreover have "\<not> triggered (m_events (fst s') ?i)"
      "processCount (diagnostics (m_events (fst s') ?i)) = processCount (diagnostics ?e)"
      using f by (simp_all add: e')
    ultimately show ?thesis by blast
  qed
  from w1 f e1 sw show ?thesis by blast
qed

theorem stop_keeps_flag_witness:
  "triggered (m_events sim_fired 1)
   \<and> triggered (m_events (projr (AppEvent_Stop sim_platform 1 sim_fired)) 1)
   \<and> triggerCount (diagnostics (m_events (projr (AppEvent_Stop sim_platform 1 sim_fired)) 1)) = 3
   \<and> processCount (diagnostics (m_events (projr (AppEvent_Stop sim_platform 1 sim_fired)) 1)) = 0
   \<and> \<not> triggered (m_events (fst (projr (AppEvent_ProcessMainEvents sim_platform idle_run
          (projr (AppEvent_Stop sim_platform 1 sim_fired), [])))) 1)
   \<and> processCount (diagnostics (m_events (fst (projr (AppEvent_ProcessMainEvents sim_platform idle_run
          (projr (AppEvent_Stop sim_platform 1 sim_fired), [])))) 1)) = 0
   \<and> count_list (snd (projr (AppEvent_ProcessMainEvents sim_platform idle_run
          (projr (AppEvent_Stop sim_platform 1 sim_fired), [])))) 1 = 0"
proof -
  have r: "registered sim_fired (unat (1 :: u8))" using registered_sim_fired by simp
  have h: "ev_context (m_events sim_fired (unat (1 :: u8))) = APP_EVENT_CONTEXT_MAIN"
    "ev_type (m_events sim_fired (unat (1 :: u8))) = EVENT_TYPE_TIMER"
    "\<not> ev_single (m_events sim_fired (unat (1 :: u8)))"
    "triggered (m_events sim_fired (unat (1 :: u8)))" "\<not> paused (m_events sim_fired (unat (1 :: u8)))"
    "triggerCount (diagnostics (m_events sim_fired (unat (1 :: u8)))) = 3"
    "processCount (diagnostics (m_events sim_fired (unat (1 :: u8)))) = 0"
    by (simp_all add: sim_fired_fields sim_armed_fields sim_world_fields zero_event_def)
  from stop_keeps_flag [OF r, of sim_platform idle_run "[]"] h sim_platform_stop
    leaves_alone_idle [of "unat (1 :: u8)"]
  show ?thesis by auto
qed

text \<open>
  The claim as written promises that the next sweep clears the stale flag of every such
  event. The sweep skips a paused event: its flag is still pending afterwards.
\<close>

theorem paused_stale_flag_counterexample:
  "ev_context (m_events sim_paused_fired 1) = APP_EVENT_CONTEXT_MAIN
   \<and> ev_type (m_events sim_paused_fired 1) = EVENT_TYPE_TIMER
   \<and> \<not> ev_single (m_events sim_paused_fired 1)
   \<and> triggered (m_events sim_paused_fired 1)
   \<and> triggered (m_events (fst (projr (AppEvent_ProcessMainEvents sim_platform idle_run
          (projr (AppEvent_Stop sim_platform 1 sim_paused_fired), [])))) 1)"
proof -
  let ?w1 = "projr (AppEvent_Stop sim_platform 1 sim_paused_fired)"
  have h: "ev_context (m_events sim_paused_fired (Suc 0)) = APP_EVENT_CONTEXT_MAIN"
    "ev_type (m_events sim_paused_fired (Suc 0)) = EVENT_TYPE_TIMER"
    "\<not> ev_single (m_events sim_paused_fired (Suc 0))"
    "triggered (m_events sim_paused_fired (Suc 0))" "paused (m_events sim_paused_fired (Suc 0))"
    by (simp_all add: sim_paused_fired_fields sim_armed_fields sim_world_fields zero_event_def)
  have s: "m_numEvents ?w1 = 3" "triggered (m_events ?w1 (Suc 0))" "paused (m_events ?w1 (Suc 0))"
    using h by (simp_all add: AppEvent_Stop_def MAX_EVENTS_def Let_def sim_paused_fired_fields)
  from sweep_skip [OF leaves_alone_idle, where i = "Suc 0" and w = ?w1 and P = sim_platform and tr = "[]"] s
  obtain s' where "AppEvent_ProcessMainEvents sim_platform idle_run (?w1, []) = Inr s'"
    and "m_events (fst s') (Suc 0) = m_events ?w1 (Suc 0)"
    by (auto simp: MAX_EVENTS_def)
  with s h show ?thesis by simp
qed

subsection \<open>C10: Start discards a pending trigger\<close>

text \<open>
  Claim C10. For a registered event, \<open>AppEvent_Start\<close> returns normally. It clears
  \<open>triggered\<close> and records \<open>single\<close> and the current time before it arms the event
  (\<open>StartEvent\<close> receives the state with these three writes), and the three values are
  still there when it returns. A trigger pending before the call is thereby discarded:
  any number of later sweeps, with callbacks that leave the descriptor alone, invokes
  the callback not once and leaves the descriptor as \<open>Start\<close> left it.
\<close>

theorem start_discards_pending:
  assumes "registered w (unat eid)"
  shows "\<exists>w1. AppEvent_Start P eid sgl w = Inr w1
          \<and> w1 = StartEvent P (unat eid) (w\<lparr>m_events := (m_events w)(unat eid :=
                   (m_events w (unat eid))\<lparr>triggered := False, ev_single := sgl,
                      diagnostics := (diagnostics (m_events w (unat eid)))\<lparr>startTime :=
                        TimerGetCurrentTime P (plat w)\<rparr>\<rparr>)\<rparr>)
          \<and> \<not> triggered (m_events w1 (unat eid))
          \<and> ev_single (m_events w1 (unat eid)) = sgl
          \<and> startTime (diagnostics (m_events w1 (unat eid))) = TimerGetCurrentTime P (plat w)
          \<and> (leaves_alone run (unat eid) \<longrightarrow>
               (\<exists>s'. sweeps P run k (w1, tr) = Inr s'
                  \<and> count_list (snd s') (unat eid) = count_list tr (unat eid)
                  \<and> m_events (fst s') (unat eid) = m_events w1 (unat eid)))"
proof -
  let ?i = "unat eid"
  note rs = registered_slot [OF assms]
  from Start_effect [OF rs(1), of P sgl w] obtain w1 where
    w1: "AppEvent_Start P eid sgl w = Inr w1" and n1: "m_numEvents w1 = m_numEvents w"
    and e1: "m_events w1 ?i = (m_events w ?i)\<lparr>triggered := False, ev_single := sgl,
          diagnostics := (diagnostics (m_events w ?i))\<lparr>startTime := TimerGetCurrentTime P (plat w)\<rparr>,
          timer := timer (m_events w1 ?i)\<rparr>"
    by blast
  have f: "\<not> triggered (m_events w1 ?i)" "ev_single (m_events w1 ?i) = sgl"
    "startTime (diagnostics (m_events w1 ?i)) = TimerGetCurrentTime P (plat w)"
    by (subst e1, simp)+
  have d: "w1 = StartEvent P ?i (w\<lparr>m_events := (m_events w)(?i :=
                   (m_events w ?i)\<lparr>triggered := False, ev_single := sgl,
                      diagnostics := (diagnostics (m_events w ?i))\<lparr>startTime :=
                        TimerGetCurrentTime P (plat w)\<rparr>\<rparr>)\<rparr>)"
    using w1 rs(1) by (simp add: AppEvent_Start_def Let_def)
  have sw: "\<exists>s'. sweeps P run k (w1, tr) = Inr s'
                  \<and> count_list (snd s') ?i = count_list tr ?i
                  \<and> m_events (fst s') ?i = m_events w1 ?i" if la: "leaves_alone run ?i"
  proof -
    let ?Q = "\<lambda>x. x = m_events w1 ?i"
    have cbn: "\<forall>c v. m_numEvents (run c v) = m_numEvents v" using la by (simp add: leaves_alone_def)
    have cbQ: "\<forall>c v. ?Q (m_events v ?i) \<longrightarrow> ?Q (m_events (run c v) ?i)"
      using la by (simp add: leaves_alone_def)
    have step: "\<forall>s1. ?Q (m_events (fst s1) ?i) \<longrightarrow>
                 ?Q (m_events (fst (ProcessMainEvents_body P run ?i s1)) ?i)
                 \<and> count_list (snd (ProcessMainEvents_body P run ?i s1)) ?i = count_list (snd s1) ?i + 0"
      using f(1) by (auto simp: ProcessMainEvents_body_def Let_def)
    from sweeps_invariant [where Q = ?Q and s = "(w1, tr)" and P = P and k = k, OF cbn cbQ step]
      assms n1 rs(5) show ?thesis by (auto simp: registered_def)
  qed
  from w1 d f sw show ?thesis by blast
qed

theorem start_discards_pending_witness:
  "triggered (m_events sim_pending 0)
   \<and> \<not> triggered (m_events (projr (AppEvent_Start sim_platform 0 False sim_pending)) 0)
   \<and> \<not> ev_single (m_events (projr (AppEvent_Start sim_platform 0 False sim_pending)) 0)
   \<and> count_list (snd (projr (sweeps sim_platform idle_run 2
          (projr (AppEvent_Start sim_platform 0 False sim_pending), [])))) 0 = 0
   \<and> \<not> triggered (m_events (fst (projr (sweeps sim_platform idle_run 2
          (projr (AppEvent_Start sim_platform 0 False sim_pending), [])))) 0)"
proof -
  have r: "registered sim_pending (unat (0 :: u8))" using registered_sim_pending by simp
  from start_discards_pending [OF r, of sim_platform False idle_run 2 "[]"] leaves_alone_idle [of 0]
    sim_pending_run(2)
  show ?thesis by auto
qed

end
